theory Spec2Isabelle
  imports Main
begin

section \<open>Python strings\<close>

text \<open>
  A Python \<open>str\<close> is modelled as an Isabelle \<open>string\<close> holding its UTF-8 bytes. The
  characters the program looks for (\<open>.\<close>, \<open>/\<close>, \<open>_\<close>, letters) are ASCII, so searching and
  splitting on them gives the same result on bytes as on code points, and
  \<open>urllib.parse.quote\<close> works on the UTF-8 bytes anyway.
\<close>

definition rfind :: "string \<Rightarrow> char \<Rightarrow> int" where
  \<comment> \<open>\<open>s.rfind(c)\<close>: the highest index of \<open>c\<close> in \<open>s\<close>, or \<open>-1\<close>.\<close>
  "rfind s c =
     (if c \<in> set s
      then int (length s) - 1 - int (length (takeWhile (\<lambda>x. x \<noteq> c) (rev s)))
      else - 1)"

definition lstrip :: "char \<Rightarrow> string \<Rightarrow> string" where
  \<comment> \<open>\<open>s.lstrip(c)\<close>\<close>
  "lstrip c s = dropWhile (\<lambda>x. x = c) s"

definition rstrip :: "char \<Rightarrow> string \<Rightarrow> string" where
  \<comment> \<open>\<open>s.rstrip(c)\<close>\<close>
  "rstrip c s = rev (dropWhile (\<lambda>x. x = c) (rev s))"

definition startswith :: "string \<Rightarrow> char \<Rightarrow> bool" where
  "startswith s c = (case s of [] \<Rightarrow> False | x # _ \<Rightarrow> x = c)"

definition endswith :: "string \<Rightarrow> char \<Rightarrow> bool" where
  "endswith s c = (case rev s of [] \<Rightarrow> False | x # _ \<Rightarrow> x = c)"

primrec str_split :: "char \<Rightarrow> string \<Rightarrow> string list" where
  \<comment> \<open>\<open>s.split(c)\<close> with a one-character separator. The result is never the empty
      list, so the first branch of the \<open>case\<close> is never taken.\<close>
  "str_split c [] = [[]]"
| "str_split c (x # xs) =
     (case str_split c xs of
        [] \<Rightarrow> [[x]]
      | y # ys \<Rightarrow> if x = c then [] # y # ys else (x # y) # ys)"

primrec str_join :: "string \<Rightarrow> string list \<Rightarrow> string" where
  \<comment> \<open>\<open>sep.join(xs)\<close>\<close>
  "str_join sep [] = []"
| "str_join sep (x # xs) = (if xs = [] then x else x @ sep @ str_join sep xs)"

definition replace :: "char \<Rightarrow> char \<Rightarrow> string \<Rightarrow> string" where
  \<comment> \<open>\<open>s.replace(old, new)\<close> for one-character \<open>old\<close> and \<open>new\<close>.\<close>
  "replace old new s = map (\<lambda>x. if x = old then new else x) s"

section \<open>The library functions the module calls (POSIX flavour)\<close>

datatype error = ValueError | ValidationError string | TypeError | OSError

definition sep :: char where
  \<comment> \<open>\<open>os.path.sep\<close>\<close>
  "sep = CHR ''/''"

subsection \<open>\<open>os.path\<close>\<close>

definition os_path_split :: "string \<Rightarrow> string \<times> string" where
  \<comment> \<open>\<open>posixpath.split\<close>: \<open>i = p.rfind(sep) + 1; head, tail = p[:i], p[i:]\<close>; trailing
      separators are stripped from a head that is not made of separators only.\<close>
  "os_path_split p =
     (let i = nat (rfind p sep + 1);
          head = take i p;
          tail = drop i p
      in (if head \<noteq> [] \<and> head \<noteq> replicate (length head) sep then rstrip sep head else head,
          tail))"

primrec os_path_join :: "string \<Rightarrow> string list \<Rightarrow> string" where
  \<comment> \<open>\<open>posixpath.join(a, *p)\<close>: a component that starts with the separator restarts the
      path; otherwise it is appended, after a separator unless the path is empty or ends
      with one.\<close>
  "os_path_join a [] = a"
| "os_path_join a (b # bs) =
     os_path_join
       (if startswith b sep then b
        else if a = [] \<or> endswith a sep then a @ b
        else a @ [sep] @ b) bs"

definition normpath :: "string \<Rightarrow> string" where
  \<comment> \<open>\<open>posixpath.normpath\<close>: empty and \<open>.\<close> components are dropped, \<open>..\<close> removes the
      component before it where there is one to remove; exactly two leading separators
      are kept, any other number becomes one.\<close>
  "normpath path =
     (if path = [] then ''.''
      else
        let initial_slashes =
              (if startswith path sep
               then (if take 2 path = [sep, sep] \<and> take 3 path \<noteq> [sep, sep, sep]
                     then 2 else 1)
               else (0::nat));
            comps = fold (\<lambda>comp new_comps.
                       if comp = [] \<or> comp = ''.'' then new_comps
                       else if comp \<noteq> ''..'' \<or> (initial_slashes = 0 \<and> new_comps = [])
                               \<or> (new_comps \<noteq> [] \<and> last new_comps = ''..'')
                            then new_comps @ [comp]
                       else if new_comps \<noteq> [] then butlast new_comps
                       else new_comps)
                     (str_split sep path) [];
            p = replicate initial_slashes sep @ str_join [sep] comps
        in if p = [] then ''.'' else p)"

subsection \<open>\<open>pathlib\<close>\<close>

text \<open>
  A \<open>PurePosixPath\<close> is its root (\<open>''\<close>, \<open>/\<close> or \<open>//\<close>) and its components. The drive is
  always empty on POSIX and is left out. The semantics are those of CPython 3.8 to 3.11,
  the versions in use when the module was written.
\<close>

record path =
  root :: string
  parts :: "string list"

definition splitroot :: "string \<Rightarrow> string \<times> string" where
  \<comment> \<open>\<open>_PosixFlavour.splitroot\<close>: exactly two leading separators are a root of their own.\<close>
  "splitroot part =
     (if part \<noteq> [] \<and> hd part = sep
      then (let stripped_part = lstrip sep part
            in if length part - length stripped_part = 2
               then ([sep, sep], stripped_part)
               else ([sep], stripped_part))
      else ([], part))"

definition Path :: "string \<Rightarrow> path" where
  \<comment> \<open>\<open>Path(s)\<close> for one string: \<open>parse_parts\<close> drops empty and \<open>.\<close> components.\<close>
  "Path s =
     (if s = [] then \<lparr>root = [], parts = []\<rparr>
      else
        let (r, rel) = splitroot s
        in \<lparr>root = r,
            parts = (if sep \<in> set rel
                     then filter (\<lambda>x. x \<noteq> [] \<and> x \<noteq> ''.'') (str_split sep rel)
                     else if rel \<noteq> [] \<and> rel \<noteq> ''.'' then [rel] else [])\<rparr>)"

definition truediv :: "path \<Rightarrow> path \<Rightarrow> path" where
  \<comment> \<open>\<open>p / q\<close> (\<open>join_parsed_parts\<close>): an anchored right operand replaces the left one.\<close>
  "truediv p q =
     (if root q \<noteq> [] then q else \<lparr>root = root p, parts = parts p @ parts q\<rparr>)"

definition path_str :: "path \<Rightarrow> string" where
  \<comment> \<open>\<open>str(p)\<close>, also \<open>os.fspath(p)\<close>: the empty path prints as \<open>.\<close>.\<close>
  "path_str p =
     (let s = root p @ str_join [sep] (parts p) in if s = [] then ''.'' else s)"

definition path_name :: "path \<Rightarrow> string" where
  \<comment> \<open>\<open>p.name\<close>: the last component, empty when there is none.\<close>
  "path_name p = (if parts p = [] then [] else last (parts p))"

definition name_suffix :: "string \<Rightarrow> string" where
  \<comment> \<open>The body of \<open>PurePath.suffix\<close> on the name: from the last dot on, unless that dot is
      the first or the last character.\<close>
  "name_suffix nm =
     (let i = rfind nm CHR ''.''
      in if 0 < i \<and> i < int (length nm) - 1 then drop (nat i) nm else [])"

definition path_suffix :: "path \<Rightarrow> string" where
  \<comment> \<open>\<open>p.suffix\<close>\<close>
  "path_suffix p = name_suffix (path_name p)"

definition path_suffixes :: "path \<Rightarrow> string list" where
  \<comment> \<open>\<open>p.suffixes\<close>: none when the name ends with a dot; leading dots are not suffixes.\<close>
  "path_suffixes p =
     (let nm = path_name p
      in if endswith nm CHR ''.'' then []
         else map (\<lambda>s. CHR ''.'' # s) (tl (str_split CHR ''.'' (lstrip CHR ''.'' nm))))"

definition with_suffix :: "path \<Rightarrow> string \<Rightarrow> error + path" where
  \<comment> \<open>\<open>p.with_suffix(suffix)\<close>: the last suffix of the name is replaced (appended when the
      name has none). \<open>ValueError\<close> for a suffix holding a separator, a non-empty suffix
      that does not start with a dot, the suffix \<open>.\<close>, and a path with an empty name.\<close>
  "with_suffix p suffix =
     (if sep \<in> set suffix then Inl ValueError
      else if (suffix \<noteq> [] \<and> \<not> startswith suffix CHR ''.'') \<or> suffix = ''.''
           then Inl ValueError
      else
        let nm = path_name p
        in if nm = [] then Inl ValueError
           else
             let old_suffix = path_suffix p;
                 nm' = (if old_suffix = [] then nm @ suffix
                        else take (length nm - length old_suffix) nm @ suffix)
             in Inr \<lparr>root = root p, parts = butlast (parts p) @ [nm']\<rparr>)"

definition abs_parts :: "path \<Rightarrow> string list" where
  \<comment> \<open>\<open>[drv, root] + parts[1:]\<close> for an anchored path, the components otherwise.\<close>
  "abs_parts p = (if root p \<noteq> [] then [[], root p] @ parts p else parts p)"

definition relative_to :: "path \<Rightarrow> path \<Rightarrow> error + path" where
  \<comment> \<open>\<open>p.relative_to(other)\<close>: \<open>ValueError\<close> unless \<open>p\<close> starts with \<open>other\<close>.\<close>
  "relative_to p other =
     (let n = length (abs_parts other)
      in if (if n = 0 then root p \<noteq> [] else take n (abs_parts p) \<noteq> abs_parts other)
         then Inl ValueError
         else Inr \<lparr>root = (if n = 1 then root p else []), parts = drop n (abs_parts p)\<rparr>)"

subsection \<open>\<open>urllib.parse.quote\<close>\<close>

definition always_safe :: "char \<Rightarrow> bool" where
  \<comment> \<open>The unreserved characters of RFC 3986, never quoted (Python 3.7 and later):
      letters, digits and \<open>_.-~\<close>.\<close>
  "always_safe c =
     (let n = of_char c :: nat
      in (65 \<le> n \<and> n \<le> 90) \<or> (97 \<le> n \<and> n \<le> 122) \<or> (48 \<le> n \<and> n \<le> 57)
         \<or> c \<in> set ''_.-~'')"

definition hex_digit :: "nat \<Rightarrow> char" where
  "hex_digit n = (''0123456789ABCDEF'' ! (n mod 16))"

definition quoter :: "char \<Rightarrow> string" where
  \<comment> \<open>A byte that is not safe becomes \<open>%XX\<close>, in upper-case hexadecimal.\<close>
  "quoter c =
     (if always_safe c \<or> c = CHR ''/'' then [c]
      else [CHR ''%'', hex_digit (of_char c div 16), hex_digit (of_char c)])"

definition urlquote :: "string \<Rightarrow> string" where
  \<comment> \<open>\<open>quote(url)\<close> with the default \<open>safe='/'\<close>.\<close>
  "urlquote s = concat (map quoter s)"

section \<open>Regular expressions, as far as \<open>RE_LOCALE\<close> needs them\<close>

datatype re_item =
    Caret                     \<comment> \<open>\<open>^\<close>: the start of the string\<close>
  | Dollar                    \<comment> \<open>\<open>$\<close>: the end of the string, or just before a newline that ends it\<close>
  | Lit char                  \<comment> \<open>a literal character\<close>
  | Range char char nat       \<comment> \<open>\<open>[lo-hi]{n}\<close>\<close>

fun re_match_seq :: "re_item list \<Rightarrow> bool \<Rightarrow> string \<Rightarrow> bool" where
  \<comment> \<open>Whether the sequence matches a prefix of the rest of the string; the flag tells
      whether the rest is the whole string.\<close>
  "re_match_seq [] at_start s = True"
| "re_match_seq (Caret # items) at_start s = (at_start \<and> re_match_seq items at_start s)"
| "re_match_seq (Dollar # items) at_start s =
     ((s = [] \<or> s = [CHR 0x0A]) \<and> re_match_seq items at_start s)"
| "re_match_seq (Lit c # items) at_start s =
     (case s of [] \<Rightarrow> False | x # xs \<Rightarrow> x = c \<and> re_match_seq items False xs)"
| "re_match_seq (Range lo hi 0 # items) at_start s = re_match_seq items at_start s"
| "re_match_seq (Range lo hi (Suc n) # items) at_start s =
     (case s of [] \<Rightarrow> False
      | x # xs \<Rightarrow> (of_char lo :: nat) \<le> of_char x \<and> (of_char x :: nat) \<le> of_char hi
                 \<and> re_match_seq (Range lo hi n # items) False xs)"

definition re_match :: "re_item list list \<Rightarrow> string \<Rightarrow> bool" where
  \<comment> \<open>\<open>pattern.match(s)\<close> for an alternation of sequences: a match at the start of \<open>s\<close>.\<close>
  "re_match alternatives s = list_ex (\<lambda>items. re_match_seq items True s) alternatives"

section \<open>\<open>Locale\<close>: validation of the locale configuration option\<close>

definition RE_LOCALE :: "re_item list list" where
  \<comment> \<open>\<open>compile(r"(^[a-z]{2}_[A-Z]{2}$)|(^[a-z]{2}$)")\<close>\<close>
  "RE_LOCALE =
     [[Caret, Range CHR ''a'' CHR ''z'' 2, Lit CHR ''_'', Range CHR ''A'' CHR ''Z'' 2, Dollar],
      [Caret, Range CHR ''a'' CHR ''z'' 2, Dollar]]"

datatype pyval =
    PyStr string
  | PyDict "(pyval \<times> pyval) list"   \<comment> \<open>the items, in iteration order\<close>
  | PyInt int
  | PyList "pyval list"
  | PyNone

definition validate_locale_message :: "string \<Rightarrow> string" where
  "validate_locale_message s =
     ''Language code values must be either ISO-639-1 lower case '' @
     ''or represented with they territory/region/county codes, '' @
     ''received '' @ [CHR 0x27] @ s @ [CHR 0x27] @
     '' expected forms examples: '' @ [CHR 0x27] @ ''en'' @ [CHR 0x27] @
     '' or '' @ [CHR 0x27] @ ''en_US'' @ [CHR 0x27] @ ''.''"

definition validate_locale :: "pyval \<Rightarrow> error + unit" where
  \<comment> \<open>\<open>Locale._validate_locale\<close>. \<open>RE_LOCALE.match\<close> of a value that is not a string is a
      \<open>TypeError\<close>.\<close>
  "validate_locale v =
     (case v of
        PyStr s \<Rightarrow>
          if \<not> re_match RE_LOCALE s then Inl (ValidationError (validate_locale_message s))
          else Inr ()
      | _ \<Rightarrow> Inl TypeError)"

fun validate_keys :: "(pyval \<times> pyval) list \<Rightarrow> error + unit" where
  \<comment> \<open>\<open>for key in value: self._validate_locale(key)\<close>\<close>
  "validate_keys [] = Inr ()"
| "validate_keys ((k, _) # kvs) =
     (case validate_locale k of Inl e \<Rightarrow> Inl e | Inr _ \<Rightarrow> validate_keys kvs)"

definition run_validation :: "(pyval \<Rightarrow> error + pyval) \<Rightarrow> pyval \<Rightarrow> error + pyval" where
  \<comment> \<open>\<open>Locale.run_validation\<close>. The first argument is \<open>super().run_validation\<close>, the type
      check of the configuration option the class extends.\<close>
  "run_validation super_run_validation v0 =
     (case super_run_validation v0 of
        Inl e \<Rightarrow> Inl e
      | Inr v \<Rightarrow>
          (case v of
             PyStr s \<Rightarrow> (case validate_locale v of Inl e \<Rightarrow> Inl e | Inr _ \<Rightarrow> Inr v)
           | PyDict kvs \<Rightarrow> (case validate_keys kvs of Inl e \<Rightarrow> Inl e | Inr _ \<Rightarrow> Inr v)
           | _ \<Rightarrow> Inr v))"

section \<open>\<open>I18nFiles\<close>: the collection\<close>

text \<open>
  The fields of \<open>mkdocs.structure.files.File\<close> that the module reads. \<open>I18nFile\<close> extends
  the class, so the collection holds either.
\<close>

record File =
  page :: "nat option"
  src_path :: string
  abs_src_path :: string
  dest_path :: string
  abs_dest_path :: string

definition append :: "('a File_scheme) list \<Rightarrow> 'a File_scheme \<Rightarrow> ('a File_scheme) list" where
  \<comment> \<open>\<open>I18nFiles.append\<close> on \<open>self._files\<close>: returns at the first member with the same
      \<open>dest_path\<close>, appends otherwise.\<close>
  "append files f =
     (if list_ex (\<lambda>inside_file. dest_path inside_file = dest_path f) files then files
      else files @ [f])"

definition dict_set :: "(string \<times> 'v) list \<Rightarrow> string \<Rightarrow> 'v \<Rightarrow> (string \<times> 'v) list" where
  \<comment> \<open>\<open>d[k] = v\<close>: a key that is present keeps its place and takes the new value, a new
      key goes last.\<close>
  "dict_set d k v =
     (if k \<in> set (map fst d) then map (\<lambda>(k', v'). if k' = k then (k', v) else (k', v')) d
      else d @ [(k, v)])"

definition src_paths :: "('a File_scheme) list \<Rightarrow> (string \<times> 'a File_scheme) list" where
  \<comment> \<open>Modelled from the spec: the inherited attribute \<open>Files.src_paths\<close> (of mkdocs, not in
      this repository) is the dictionary \<open>{file.src_path: file for file in self._files}\<close>
      of the members' source paths, its items in the order of a Python dictionary.\<close>
  "src_paths files = fold (\<lambda>f d. dict_set d (src_path f) f) files []"

definition dict_get :: "(string \<times> 'v) list \<Rightarrow> string \<Rightarrow> 'v option" where
  \<comment> \<open>\<open>d.get(k)\<close>\<close>
  "dict_get d k = map_of d k"

definition expected_src_paths :: "string \<Rightarrow> string \<Rightarrow> string \<Rightarrow> error + path list" where
  \<comment> \<open>The list both \<open>__contains__\<close> and \<open>get_file_from_path\<close> build: the path with
      \<open>.<locale>\<close>, then with \<open>.<default_locale>\<close>, put before its suffix, then the path.\<close>
  "expected_src_paths locale default_locale p =
     (let expected_src_path = Path p
      in case with_suffix expected_src_path
                (''.'' @ locale @ path_suffix expected_src_path) of
           Inl e \<Rightarrow> Inl e
         | Inr p1 \<Rightarrow>
             (case with_suffix expected_src_path
                     (''.'' @ default_locale @ path_suffix expected_src_path) of
                Inl e \<Rightarrow> Inl e
              | Inr p2 \<Rightarrow> Inr [p1, p2, expected_src_path]))"

definition contains :: "string \<Rightarrow> string \<Rightarrow> ('a File_scheme) list \<Rightarrow> string \<Rightarrow> error + bool" where
  \<comment> \<open>\<open>I18nFiles.__contains__\<close>: \<open>any\<close> of the source paths that are in the list; \<open>any\<close>
      looks at the truth value of each, and an empty string is false.\<close>
  "contains locale default_locale files p =
     (case expected_src_paths locale default_locale p of
        Inl e \<Rightarrow> Inl e
      | Inr expected \<Rightarrow>
          Inr (list_ex (\<lambda>s. s \<noteq> [])
                 (filter (\<lambda>s. Path s \<in> set expected) (map fst (src_paths files)))))"

definition get_file_from_path ::
  "string \<Rightarrow> string \<Rightarrow> ('a File_scheme) list \<Rightarrow> string \<Rightarrow> error + ('a File_scheme) option" where
  \<comment> \<open>\<open>I18nFiles.get_file_from_path\<close>: returns in the first round of the loop over the
      source paths that are in the list; \<open>None\<close> when the loop has no round.\<close>
  "get_file_from_path locale default_locale files p =
     (case expected_src_paths locale default_locale p of
        Inl e \<Rightarrow> Inl e
      | Inr expected \<Rightarrow>
          (case filter (\<lambda>s. Path s \<in> set expected) (map fst (src_paths files)) of
             [] \<Rightarrow> Inr None
           | src_path' # _ \<Rightarrow> Inr (dict_get (src_paths files) (normpath src_path'))))"

section \<open>\<open>I18nFile\<close>: the resolution of one file\<close>

record I18nFile = File +
  docs_dir :: string
  site_dir :: string
  all_languages :: "string list"
  dest_language :: string
  initial_abs_src_path :: string
  initial_abs_dest_path :: string
  initial_dest_path :: string
  initial_src_path :: string
  locale_suffix :: "string option"
  name :: string
  dest_name :: "path option"     \<comment> \<open>\<open>None\<close>: the attribute was never assigned\<close>
  url :: string

text \<open>
  The methods below run while the object is under construction; each takes the
  attributes of \<open>self\<close> it reads as arguments.
\<close>

definition suffix :: "string \<Rightarrow> string" where
  \<comment> \<open>The property \<open>I18nFile.suffix\<close>, of \<open>self.initial_src_path\<close>.\<close>
  "suffix initial_src_path' = path_suffix (Path initial_src_path')"

definition is_localized_for :: "string list \<Rightarrow> string \<Rightarrow> string option" where
  \<comment> \<open>\<open>I18nFile._is_localized_for\<close>: the first language of \<open>self.all_languages\<close> with
      \<open>set(expected_suffixes) <= set(Path(self.initial_src_path).suffixes)\<close>.\<close>
  "is_localized_for all_languages' initial_src_path' =
     find (\<lambda>language.
             set [''.'' @ language, path_suffix (Path initial_src_path')]
               \<subseteq> set (path_suffixes (Path initial_src_path')))
       all_languages'"

definition non_i18n_src_path :: "string list \<Rightarrow> string \<Rightarrow> error + path" where
  \<comment> \<open>The property \<open>I18nFile.non_i18n_src_path\<close>: \<open>with_suffix("")\<close> once, or twice when
      a locale was detected.\<close>
  "non_i18n_src_path all_languages' initial_src_path' =
     (if is_localized_for all_languages' initial_src_path' = None
      then with_suffix (Path initial_src_path') []
      else (case with_suffix (Path initial_src_path') [] of
              Inl e \<Rightarrow> Inl e
            | Inr p \<Rightarrow> with_suffix p []))"

definition get_stem :: "string list \<Rightarrow> string \<Rightarrow> error + string" where
  \<comment> \<open>\<open>I18nFile._get_stem\<close>. The source reads the property twice when the name is not
      \<open>index\<close> or \<open>README\<close>; both reads give the same path.\<close>
  "get_stem all_languages' initial_src_path' =
     (case non_i18n_src_path all_languages' initial_src_path' of
        Inl e \<Rightarrow> Inl e
      | Inr p \<Rightarrow>
          Inr (if path_name p \<in> set [''index'', ''README''] then ''index'' else path_name p))"

definition get_dest_path ::
  "(string \<Rightarrow> bool) \<Rightarrow> path \<Rightarrow> string \<Rightarrow> path \<Rightarrow> bool option \<Rightarrow> string" where
  \<comment> \<open>\<open>I18nFile._get_dest_path\<close>, of \<open>self.src_path\<close>, \<open>self.name\<close> and \<open>self.dest_name\<close>.
      The first argument is the inherited \<open>is_documentation_page\<close> (of mkdocs), which
      looks at the source path. \<open>use_directory_urls\<close> is \<open>None\<close>, \<open>True\<close> or \<open>False\<close>.\<close>
  "get_dest_path is_documentation_page src_path' name' dest_name' use_directory_urls =
     (let (parent, _) = os_path_split (path_str src_path')
      in if is_documentation_page (path_str src_path')
         then (if use_directory_urls = Some False \<or> name' = ''index''
               then os_path_join parent [name' @ ''.html'']
               else os_path_join parent [name', ''index.html''])
         else os_path_join parent [path_str dest_name'])"

definition get_url :: "string \<Rightarrow> string \<Rightarrow> bool option \<Rightarrow> string" where
  \<comment> \<open>\<open>I18nFile._get_url\<close>, of \<open>str(self.dest_path)\<close> and \<open>self.dest_language\<close>. The two
      \<open>if\<close>s test truth values: \<open>None\<close> and \<open>False\<close>, and the empty string, are false.\<close>
  "get_url dest_path' dest_language' use_directory_urls =
     (let url0 = replace sep CHR ''/'' dest_path';
          (dirname, filename) = os_path_split url0;
          url1 = (if use_directory_urls = Some True \<and> filename = ''index.html''
                  then (if dirname = [] then ''.'' else dirname @ ''/'')
                  else url0);
          url2 = (if dest_language' \<noteq> []
                  then (if url1 = ''.'' then dest_language' @ ''/''
                        else dest_language' @ ''/'' @ url1)
                  else url1)
      in urlquote url2)"

definition expected_paths ::
  "path \<Rightarrow> string \<Rightarrow> string \<Rightarrow> string \<Rightarrow> string \<Rightarrow> (string option \<times> path) list" where
  \<comment> \<open>The list \<open>expected_paths\<close> of \<open>__init__\<close>, of the value of \<open>self.non_i18n_src_path\<close>
      and of \<open>self.suffix\<close>.\<close>
  "expected_paths stem sfx language default_language docs_dir' =
     [(Some language,
       truediv (Path docs_dir') (Path (path_str stem @ ''.'' @ language @ sfx))),
      (Some default_language,
       truediv (Path docs_dir') (Path (path_str stem @ ''.'' @ default_language @ sfx))),
      (None, truediv (Path docs_dir') (Path (path_str stem @ sfx)))]"

type_synonym file_system = "string \<Rightarrow> error + bool"
  \<comment> \<open>\<open>Path(p).exists()\<close> of CPython 3.8 to 3.11, of the path as the system call sees
      it: \<open>stat\<close> succeeds (\<open>True\<close>), fails with \<open>ENOENT\<close>, \<open>ENOTDIR\<close>, \<open>EBADF\<close> or
      \<open>ELOOP\<close> (\<open>False\<close>), or fails with another error number, and then \<open>exists\<close> raises
      the \<open>OSError\<close> again.\<close>

primrec first_existing ::
  "file_system \<Rightarrow> (string option \<times> path) list \<Rightarrow> error + (string option \<times> path) option" where
  \<comment> \<open>The loop \<open>for locale_suffix, expected_path in expected_paths\<close> of \<open>__init__\<close> up to
      its \<open>break\<close>: the pairs are probed in order; the first one that exists is the one
      the body runs on, \<open>None\<close> stands for the \<open>else\<close> branch of the loop, and an
      \<open>OSError\<close> of a probe leaves the loop, and \<open>__init__\<close>, at once.\<close>
  "first_existing exists [] = Inr None"
| "first_existing exists (x # xs) =
     (case exists (path_str (snd x)) of
        Inl e \<Rightarrow> Inl e
      | Inr found \<Rightarrow> if found then Inr (Some x) else first_existing exists xs)"

definition I18nFile_init ::
  "file_system \<Rightarrow> (string \<Rightarrow> bool) \<Rightarrow> File \<Rightarrow> string \<Rightarrow> string list \<Rightarrow> string \<Rightarrow>
   string \<Rightarrow> string \<Rightarrow> bool option \<Rightarrow> error + I18nFile" where
  \<comment> \<open>\<open>I18nFile.__init__\<close>. The first argument is the file system (\<open>Path.exists\<close>), the
      second the inherited \<open>is_documentation_page\<close>. Nothing in \<open>__init__\<close> catches an
      exception, so each one raised on the way is the result.\<close>
  "I18nFile_init exists is_documentation_page file_from language all_languages'
       default_language docs_dir' site_dir' use_directory_urls =
     (case get_stem all_languages' (src_path file_from) of
        Inl e \<Rightarrow> Inl e
      | Inr name' \<Rightarrow>
     (case non_i18n_src_path all_languages' (src_path file_from) of
        Inl e \<Rightarrow> Inl e
      | Inr stem \<Rightarrow>
     (case first_existing exists
             (expected_paths stem (suffix (src_path file_from)) language default_language
                docs_dir') of
        Inl e \<Rightarrow> Inl e
      | Inr None \<Rightarrow>
          Inr \<lparr>page = page file_from,
               src_path = src_path file_from,
               abs_src_path = abs_src_path file_from,
               dest_path = dest_path file_from,
               abs_dest_path = abs_dest_path file_from,
               docs_dir = docs_dir',
               site_dir = site_dir',
               all_languages = all_languages',
               dest_language = language,
               initial_abs_src_path = abs_src_path file_from,
               initial_abs_dest_path = abs_dest_path file_from,
               initial_dest_path = dest_path file_from,
               initial_src_path = src_path file_from,
               locale_suffix = None,
               name = name',
               dest_name = None,
               url = get_url (dest_path file_from) language use_directory_urls\<rparr>
      | Inr (Some (locale_suffix', expected_path)) \<Rightarrow>
     (case relative_to expected_path (Path docs_dir') of
        Inl e \<Rightarrow> Inl e
      | Inr src_path' \<Rightarrow>
     (case (if locale_suffix' \<noteq> None \<and> locale_suffix' \<noteq> Some []
            then with_suffix (Path name') (suffix (src_path file_from))
            else with_suffix (Path name')
                   (concat (path_suffixes (Path (src_path file_from))))) of
        Inl e \<Rightarrow> Inl e
      | Inr dest_name' \<Rightarrow>
          (let dest_path' = get_dest_path is_documentation_page src_path' name' dest_name'
                              use_directory_urls
           in Inr \<lparr>page = page file_from,
                   src_path = path_str src_path',
                   abs_src_path = path_str (truediv (Path docs_dir') src_path'),
                   dest_path = dest_path',
                   abs_dest_path =
                     path_str (truediv (truediv (Path site_dir') (Path language))
                                 (Path dest_path')),
                   docs_dir = docs_dir',
                   site_dir = site_dir',
                   all_languages = all_languages',
                   dest_language = language,
                   initial_abs_src_path = abs_src_path file_from,
                   initial_abs_dest_path = abs_dest_path file_from,
                   initial_dest_path = dest_path file_from,
                   initial_src_path = src_path file_from,
                   locale_suffix = locale_suffix',
                   name = name',
                   dest_name = Some dest_name',
                   url = get_url dest_path' language use_directory_urls\<rparr>))))))"

section \<open>Definitions used to state the properties\<close>

primrec append_all :: "('a File_scheme) list \<Rightarrow> ('a File_scheme) list \<Rightarrow> ('a File_scheme) list" where
  \<comment> \<open>A sequence of calls of \<open>append\<close> on a collection, in order.\<close>
  "append_all files [] = files"
| "append_all files (f # fs) = append_all (append files f) fs"

primrec first_of_each :: "string list \<Rightarrow> ('a File_scheme) list \<Rightarrow> ('a File_scheme) list" where
  \<comment> \<open>The files of a list whose \<open>dest_path\<close> is not among those seen and not that of an
      earlier file of the list, in the order of the list.\<close>
  "first_of_each seen [] = []"
| "first_of_each seen (f # fs) =
     (if dest_path f \<in> set seen then first_of_each seen fs
      else f # first_of_each (dest_path f # seen) fs)"

definition ascii_lower :: "char \<Rightarrow> bool" where
  \<comment> \<open>One of the letters \<open>a\<close> to \<open>z\<close>.\<close>
  "ascii_lower c = ((97::nat) \<le> of_char c \<and> (of_char c :: nat) \<le> 122)"

definition ascii_upper :: "char \<Rightarrow> bool" where
  \<comment> \<open>One of the letters \<open>A\<close> to \<open>Z\<close>.\<close>
  "ascii_upper c = ((65::nat) \<le> of_char c \<and> (of_char c :: nat) \<le> 90)"

definition locale_code :: "string \<Rightarrow> bool" where
  \<comment> \<open>The strings of the two forms \<open>en\<close> and \<open>en_US\<close>.\<close>
  "locale_code s =
     (case s of
        [a, b] \<Rightarrow> ascii_lower a \<and> ascii_lower b
      | [a, b, u, c, d] \<Rightarrow>
          ascii_lower a \<and> ascii_lower b \<and> u = CHR ''_'' \<and> ascii_upper c \<and> ascii_upper d
      | _ \<Rightarrow> False)"

definition name_stem :: "string \<Rightarrow> string" where
  \<comment> \<open>The body of \<open>PurePath.stem\<close> on the name: the name without its suffix.\<close>
  "name_stem nm =
     (let i = rfind nm CHR ''.''
      in if 0 < i \<and> i < int (length nm) - 1 then take (nat i) nm else nm)"

definition without_suffix :: "path \<Rightarrow> path" where
  \<comment> \<open>The path with the suffix of its last component removed, if it has one.\<close>
  "without_suffix p = \<lparr>root = root p, parts = butlast (parts p) @ [name_stem (path_name p)]\<rparr>"

definition walker_path :: "string \<Rightarrow> bool" where
  \<comment> \<open>What the file walker supplies: a relative path to a file whose name does not start
      with a dot (mkdocs leaves dot files out).\<close>
  "walker_path s =
     (root (Path s) = [] \<and> path_name (Path s) \<noteq> []
      \<and> \<not> startswith (path_name (Path s)) CHR ''.'')"

definition logical_stem :: "string list \<Rightarrow> string \<Rightarrow> path" where
  \<comment> \<open>The initial path without its extension, and without the suffix before it when a
      locale is detected.\<close>
  "logical_stem langs s =
     (if is_localized_for langs s \<noteq> None
      then without_suffix (without_suffix (Path s))
      else without_suffix (Path s))"

definition candidate :: "string \<Rightarrow> path \<Rightarrow> string \<Rightarrow> string \<Rightarrow> path" where
  \<comment> \<open>The path, under \<open>docs_dir\<close>, of a stem followed by a locale part and an extension.\<close>
  "candidate docs_dir' stem mid ext = truediv (Path docs_dir') (Path (path_str stem @ mid @ ext))"

definition spec_url :: "string \<Rightarrow> string \<Rightarrow> bool \<Rightarrow> string" where
  \<comment> \<open>The URL as the specification words it: separators become \<open>/\<close>; with directory
      URLs a destination whose file name is \<open>index.html\<close> collapses to its parent
      directory and a slash, \<open>.\<close> for the root; then the locale and a slash go in front,
      the bare \<open>.\<close> giving the locale and a slash; the result is percent-encoded.\<close>
  "spec_url dest locale directory_urls =
     (let u = replace sep CHR ''/'' dest;
          filename = rev (takeWhile (\<lambda>c. c \<noteq> CHR ''/'') (rev u));
          up_to_slash = rev (dropWhile (\<lambda>c. c \<noteq> CHR ''/'') (rev u));
          parent = (if set up_to_slash \<subseteq> {CHR ''/''} then up_to_slash
                    else rstrip CHR ''/'' up_to_slash);
          collapsed = (if directory_urls \<and> filename = ''index.html''
                       then (if parent = [] then ''.'' else parent @ ''/'')
                       else u)
      in urlquote (if collapsed = ''.'' then locale @ ''/'' else locale @ ''/'' @ collapsed))"

definition stem_name :: "string list \<Rightarrow> string \<Rightarrow> string" where
  \<comment> \<open>The name for the destination: \<open>index\<close> when the last component of the logical
      stem is \<open>index\<close> or \<open>README\<close>, that component otherwise.\<close>
  "stem_name langs s =
     (if path_name (logical_stem langs s) = ''index'' \<or> path_name (logical_stem langs s) = ''README''
      then ''index'' else path_name (logical_stem langs s))"

definition parent_dir :: "string \<Rightarrow> string" where
  \<comment> \<open>The directory of a relative path: what stands before its last separator.\<close>
  "parent_dir p = rstrip CHR ''/'' (rev (dropWhile (\<lambda>c. c \<noteq> CHR ''/'') (rev p)))"

definition path_under :: "string \<Rightarrow> string \<Rightarrow> string" where
  \<comment> \<open>\<open>parent/x\<close>, and \<open>x\<close> alone at the root.\<close>
  "path_under parent x = (if parent = [] then x else parent @ ''/'' @ x)"

definition field :: "('a \<Rightarrow> 'b) \<Rightarrow> error + 'a \<Rightarrow> 'b option" where
  \<comment> \<open>An attribute of the object a constructor returned; \<open>None\<close> when it raised.\<close>
  "field f x = (case x of Inl _ \<Rightarrow> None | Inr r \<Rightarrow> Some (f r))"

definition with_locale :: "string \<Rightarrow> string \<Rightarrow> path" where
  \<comment> \<open>The path with \<open>.<locale>\<close> put in before the extension of its last component.\<close>
  "with_locale p locale =
     \<lparr>root = root (Path p),
      parts = butlast (parts (Path p))
              @ [name_stem (path_name (Path p)) @ ''.'' @ locale @ name_suffix (path_name (Path p))]\<rparr>"

section \<open>An example documentation tree\<close>

definition example_docs :: file_system where
  \<comment> \<open>The files on disk; every probe of this file system completes.\<close>
  "example_docs p =
     Inr (p \<in> set [''docs/index.md'', ''docs/guide/intro.md'', ''docs/guide/intro.fr.md'',
                     ''docs/guide/setup.en.md'', ''docs/guide/usage.md'', ''docs/img/logo.fr.png'',
                     ''docs/files/archive.tar.gz'', ''docs/js/jquery.min.fr.js''])"

definition example_is_page :: "string \<Rightarrow> bool" where
  \<comment> \<open>Documentation pages are the Markdown files.\<close>
  "example_is_page p =
     (suffix p \<in> set [''.markdown'', ''.mdown'', ''.mkdn'', ''.mkd'', ''.md''])"

definition example_file :: "string \<Rightarrow> string \<Rightarrow> File" where
  \<comment> \<open>The file the walker supplies for a source path and a destination path.\<close>
  "example_file s d =
     \<lparr>page = None, src_path = s, abs_src_path = ''docs/'' @ s, dest_path = d,
      abs_dest_path = ''site/'' @ d\<rparr>"

definition example_init :: "string \<Rightarrow> string \<Rightarrow> bool option \<Rightarrow> error + I18nFile" where
  \<comment> \<open>The resolution of such a file for the locale \<open>fr\<close>, with default locale \<open>en\<close>.\<close>
  "example_init s d use_directory_urls =
     I18nFile_init example_docs example_is_page (example_file s d) ''fr'' [''en'', ''fr'', ''de'']
       ''en'' ''docs'' ''site'' use_directory_urls"

definition asset_docs :: file_system where
  \<comment> \<open>A documentation directory with an image and its translation for the locale \<open>zu\<close>;
      every probe completes.\<close>
  "asset_docs p = Inr (p \<in> set [''docs/a.fr.png'', ''docs/a.fr.zu.png''])"

definition resolved_assets :: "I18nFile list" where
  \<comment> \<open>The collection for the locale \<open>zu\<close> (default \<open>en\<close>, languages \<open>en\<close>, \<open>fr\<close>, \<open>zu\<close>):
      the files \<open>__init__\<close> returns for the two walker files, appended in the order of
      the walk.\<close>
  "resolved_assets =
     append_all []
       (concat (map (\<lambda>w. case I18nFile_init asset_docs example_is_page (example_file w w) ''zu''
                                [''en'', ''fr'', ''zu''] ''en'' ''docs'' ''site'' (Some True) of
                           Inl _ \<Rightarrow> [] | Inr r \<Rightarrow> [r])
                  [''a.fr.png'', ''a.fr.zu.png'']))"

definition empty_docs :: file_system where
  \<comment> \<open>A documentation directory that holds no file, on a file system with names of at
      most 255 bytes (\<open>NAME_MAX\<close> on Linux): \<open>stat\<close> fails with \<open>ENAMETOOLONG\<close>, which
      \<open>Path.exists\<close> raises again, on a path with a longer component, and with \<open>ENOENT\<close>
      on any other.\<close>
  "empty_docs p =
     (if list_ex (\<lambda>component. 255 < length component) (str_split sep p) then Inl OSError
      else Inr False)"

definition long_name :: string where
  \<comment> \<open>A name of 250 bytes: 253 with the extension \<open>.md\<close>, and 256 with a locale of two
      letters before it.\<close>
  "long_name = replicate 250 CHR ''a''"

section \<open>Facts about the library functions\<close>

subsection \<open>Suffix and stem of a name\<close>

lemma rfind_last_occurrence: "c \<notin> set b \<Longrightarrow> rfind (a @ c # b) c = int (length a)"
proof -
  assume "c \<notin> set b"
  then have "\<forall>x \<in> set (rev b). x \<noteq> c" by auto
  then have "takeWhile (\<lambda>x. x \<noteq> c) (rev b @ c # rev a) = rev b"
    by (simp add: takeWhile_tail)
  then show ?thesis by (simp add: rfind_def)
qed

lemma rfind_absent: "c \<notin> set s \<Longrightarrow> rfind s c = - 1"
  by (simp add: rfind_def)

lemma name_suffix_split:
  "CHR ''.'' \<notin> set rest \<Longrightarrow>
   name_suffix (st @ CHR ''.'' # rest) = (if st \<noteq> [] \<and> rest \<noteq> [] then CHR ''.'' # rest else [])"
  by (auto simp: name_suffix_def rfind_last_occurrence Let_def)

lemma name_stem_split:
  "CHR ''.'' \<notin> set rest \<Longrightarrow>
   name_stem (st @ CHR ''.'' # rest) = (if st \<noteq> [] \<and> rest \<noteq> [] then st else st @ CHR ''.'' # rest)"
  by (auto simp: name_stem_def rfind_last_occurrence Let_def)

lemma name_suffix_nodot: "CHR ''.'' \<notin> set nm \<Longrightarrow> name_suffix nm = []"
  by (simp add: name_suffix_def rfind_absent)

lemma name_stem_nodot: "CHR ''.'' \<notin> set nm \<Longrightarrow> name_stem nm = nm"
  by (simp add: name_stem_def rfind_absent)

lemma name_cases:
  obtains (plain) "name_suffix nm = []" and "name_stem nm = nm"
  | (dotted) st rest where "nm = st @ CHR ''.'' # rest" and "st \<noteq> []" and "rest \<noteq> []"
      and "CHR ''.'' \<notin> set rest" and "name_suffix nm = CHR ''.'' # rest" and "name_stem nm = st"
proof (cases "CHR ''.'' \<in> set nm")
  case False
  then show ?thesis using plain by (simp add: name_suffix_nodot name_stem_nodot)
next
  case True
  then obtain st rest where nm: "nm = st @ CHR ''.'' # rest" and rest: "CHR ''.'' \<notin> set rest"
    by (meson split_list_last)
  show ?thesis
  proof (cases "st \<noteq> [] \<and> rest \<noteq> []")
    case True
    then show ?thesis
      using dotted[of st rest] rest nm by (simp add: name_suffix_split name_stem_split)
  next
    case False
    then show ?thesis
      using plain rest nm by (simp add: name_suffix_split name_stem_split)
  qed
qed

lemma name_stem_suffix: "name_stem nm @ name_suffix nm = nm"
  by (cases rule: name_cases[of nm]) simp_all

lemma name_stem_take: "take (length nm - length (name_suffix nm)) nm = name_stem nm"
  by (cases rule: name_cases[of nm]) simp_all

lemma name_stem_nonempty: "nm \<noteq> [] \<Longrightarrow> name_stem nm \<noteq> []"
  by (cases rule: name_cases[of nm]) simp_all

lemma name_stem_subset: "set (name_stem nm) \<subseteq> set nm"
  using name_stem_suffix[of nm] by (metis set_append sup_ge1)

lemma name_suffix_subset: "set (name_suffix nm) \<subseteq> set nm"
  using name_stem_suffix[of nm] by (metis set_append sup_ge2)

lemma name_stem_hd: "nm \<noteq> [] \<Longrightarrow> hd (name_stem nm) = hd nm"
  using name_stem_suffix[of nm] name_stem_nonempty[of nm] by (metis hd_append2)

lemma name_suffix_starts:
  "name_suffix nm \<noteq> [] \<Longrightarrow> hd (name_suffix nm) = CHR ''.'' \<and> name_suffix nm \<noteq> ''.''"
  by (cases rule: name_cases[of nm]) simp_all

subsection \<open>\<open>with_suffix\<close>\<close>

lemma with_suffix_ok:
  assumes "path_name p \<noteq> []" and "sep \<notin> set s" and "s = [] \<or> (hd s = CHR ''.'' \<and> s \<noteq> ''.'')"
  shows "with_suffix p s
         = Inr \<lparr>root = root p, parts = butlast (parts p) @ [name_stem (path_name p) @ s]\<rparr>"
proof -
  have "startswith s CHR ''.'' \<or> s = []"
    using assms(3) by (cases s) (auto simp: startswith_def)
  moreover have "s \<noteq> ''.''" using assms(3) by auto
  ultimately show ?thesis
    using assms(1,2) name_stem_take[of "path_name p"] name_stem_suffix[of "path_name p"]
    by (auto simp: with_suffix_def path_suffix_def Let_def)
qed

lemma with_suffix_empty:
  "path_name p \<noteq> [] \<Longrightarrow> with_suffix p [] = Inr (without_suffix p)"
  by (simp add: with_suffix_ok without_suffix_def)

lemma with_suffix_no_name: "path_name p = [] \<Longrightarrow> with_suffix p s = Inl ValueError"
  by (simp add: with_suffix_def Let_def)

lemma path_name_without_suffix: "path_name (without_suffix p) = name_stem (path_name p)"
  by (simp add: without_suffix_def path_name_def)

subsection \<open>Parsing and printing paths\<close>

lemma str_split_nonempty: "str_split c s \<noteq> []"
  by (induction s) (auto split: list.splits)

lemma str_split_no_sep: "x \<in> set (str_split c s) \<Longrightarrow> c \<notin> set x"
proof (induction s arbitrary: x)
  case Nil
  then show ?case by simp
next
  case (Cons a s)
  obtain y ys where sp: "str_split c s = y # ys"
    using str_split_nonempty[of c s] by (cases "str_split c s") auto
  have y: "c \<notin> set y" and ys: "\<forall>z \<in> set ys. c \<notin> set z"
    using Cons.IH sp by auto
  show ?case
  proof (cases "a = c")
    case True
    then show ?thesis using Cons.prems y ys sp by auto
  next
    case False
    then show ?thesis using Cons.prems y ys sp by auto
  qed
qed

lemma str_split_chars: "x \<in> set (str_split c s) \<Longrightarrow> set x \<subseteq> set s"
proof (induction s arbitrary: x)
  case Nil
  then show ?case by simp
next
  case (Cons a s)
  obtain y ys where sp: "str_split c s = y # ys"
    using str_split_nonempty[of c s] by (cases "str_split c s") auto
  have y: "set y \<subseteq> set s" and ys: "\<forall>z \<in> set ys. set z \<subseteq> set s"
    using Cons.IH sp by auto
  show ?case using Cons.prems y ys sp by (cases "a = c") auto
qed

lemma Path_parts:
  "x \<in> set (parts (Path s)) \<Longrightarrow> x \<noteq> [] \<and> x \<noteq> ''.'' \<and> sep \<notin> set x"
  by (auto simp: Path_def Let_def str_split_no_sep split: prod.splits if_splits)

lemma Path_name: "path_name (Path s) \<noteq> [] \<Longrightarrow> sep \<notin> set (path_name (Path s)) \<and> path_name (Path s) \<noteq> ''.''"
  using Path_parts[of "path_name (Path s)" s] by (auto simp: path_name_def split: if_splits)

lemma Path_single:
  "nm \<noteq> [] \<Longrightarrow> nm \<noteq> ''.'' \<Longrightarrow> sep \<notin> set nm \<Longrightarrow> Path nm = \<lparr>root = [], parts = [nm]\<rparr>"
  by (cases nm) (auto simp: Path_def splitroot_def Let_def)

lemma Path_relative: "s \<noteq> [] \<Longrightarrow> hd s \<noteq> sep \<Longrightarrow> root (Path s) = []"
  by (simp add: Path_def splitroot_def)

lemma str_join_hd:
  "ps \<noteq> [] \<Longrightarrow> hd ps \<noteq> [] \<Longrightarrow> str_join [sep] ps \<noteq> [] \<and> hd (str_join [sep] ps) = hd (hd ps)"
  by (cases ps) auto

lemma path_str_hd:
  assumes "root p = []" and "parts p \<noteq> []" and "hd (parts p) \<noteq> []"
  shows "path_str p \<noteq> [] \<and> hd (path_str p) = hd (hd (parts p))"
  using str_join_hd[OF assms(2,3)] assms(1) by (simp add: path_str_def Let_def)

subsection \<open>\<open>relative_to\<close>\<close>

lemma abs_parts_truediv:
  "root q = [] \<Longrightarrow> abs_parts (truediv p q) = abs_parts p @ parts q"
  by (simp add: abs_parts_def truediv_def)

lemma relative_to_truediv:
  assumes "root q = []"
  shows "relative_to (truediv p q) p = Inr q"
proof -
  have r: "root (truediv p q) = root p" using assms by (simp add: truediv_def)
  have one: "length (abs_parts p) = 1 \<Longrightarrow> root p = []"
    by (auto simp: abs_parts_def split: if_splits)
  have zero: "abs_parts p = [] \<Longrightarrow> root p = []"
    by (auto simp: abs_parts_def split: if_splits)
  show ?thesis
    unfolding relative_to_def Let_def abs_parts_truediv[OF assms] r
    using assms one zero by (cases q) auto
qed

subsection \<open>The chain of suffixes\<close>

lemma str_split_last_empty: "last (str_split c s) = [] \<Longrightarrow> s = [] \<or> last s = c"
proof (induction s)
  case Nil
  then show ?case by simp
next
  case (Cons a s)
  obtain y ys where sp: "str_split c s = y # ys"
    using str_split_nonempty[of c s] by (cases "str_split c s") auto
  show ?case
  proof (cases "a = c")
    case True
    then have "last (str_split c s) = []" using Cons.prems sp by simp
    then show ?thesis using Cons.IH True by auto
  next
    case False
    then have l: "last ((a # y) # ys) = []" using Cons.prems sp by simp
    then have "ys \<noteq> []" by (cases ys) auto
    then have "last (str_split c s) = []" using l sp by simp
    then have "s = [] \<or> last s = c" by (rule Cons.IH)
    moreover have "s \<noteq> []" using sp \<open>ys \<noteq> []\<close> by auto
    ultimately show ?thesis by simp
  qed
qed

lemma endswith_last: "endswith s c \<longleftrightarrow> s \<noteq> [] \<and> last s = c"
  by (cases s rule: rev_cases) (simp_all add: endswith_def)

lemma concat_dotted_single:
  assumes "concat (map (\<lambda>s. CHR ''.'' # s) ss) = ''.''"
  shows "ss = [[]]"
proof (cases ss)
  case Nil
  then show ?thesis using assms by simp
next
  case (Cons s1 rest)
  then have "s1 = []" and "concat (map (\<lambda>s. CHR ''.'' # s) rest) = []"
    using assms by simp_all
  then have "rest = []" by (cases rest) simp_all
  then show ?thesis using Cons \<open>s1 = []\<close> by simp
qed

lemma path_suffixes_chain:
  assumes "sep \<notin> set (path_name p)"
  shows "sep \<notin> set (concat (path_suffixes p))"
    and "concat (path_suffixes p) = []
         \<or> (hd (concat (path_suffixes p)) = CHR ''.'' \<and> concat (path_suffixes p) \<noteq> ''.'')"
proof -
  let ?nm = "path_name p"
  let ?ss = "tl (str_split CHR ''.'' (lstrip CHR ''.'' ?nm))"
  have chars: "set x \<subseteq> set ?nm" if "x \<in> set ?ss" for x
  proof -
    have "x \<in> set (str_split CHR ''.'' (lstrip CHR ''.'' ?nm))"
      using that by (cases "str_split CHR ''.'' (lstrip CHR ''.'' ?nm)") auto
    then have "set x \<subseteq> set (lstrip CHR ''.'' ?nm)" by (rule str_split_chars)
    then show ?thesis unfolding lstrip_def using set_dropWhileD by fastforce
  qed
  show "sep \<notin> set (concat (path_suffixes p))"
    using assms chars by (auto simp: path_suffixes_def Let_def sep_def)
  show "concat (path_suffixes p) = []
        \<or> (hd (concat (path_suffixes p)) = CHR ''.'' \<and> concat (path_suffixes p) \<noteq> ''.'')"
  proof (cases "endswith ?nm CHR ''.''")
    case True
    then show ?thesis by (simp add: path_suffixes_def)
  next
    case False
    then have ps: "path_suffixes p = map (\<lambda>s. CHR ''.'' # s) ?ss"
      by (simp add: path_suffixes_def Let_def)
    have hd: "concat (path_suffixes p) = [] \<or> hd (concat (path_suffixes p)) = CHR ''.''"
      unfolding ps by (cases ?ss) simp_all
    have "concat (path_suffixes p) \<noteq> ''.''"
    proof
      assume "concat (path_suffixes p) = ''.''"
      then have ss: "?ss = [[]]" unfolding ps by (rule concat_dotted_single)
      then have ne: "lstrip CHR ''.'' ?nm \<noteq> []" by (cases "lstrip CHR ''.'' ?nm") auto
      have "last (str_split CHR ''.'' (lstrip CHR ''.'' ?nm)) = []"
        using ss by (cases "str_split CHR ''.'' (lstrip CHR ''.'' ?nm)") auto
      then have "last (lstrip CHR ''.'' ?nm) = CHR ''.''"
        using str_split_last_empty ne by blast
      moreover have "last (lstrip CHR ''.'' ?nm) = last ?nm"
        using ne unfolding lstrip_def
        by (metis append_Nil2 last_appendR takeWhile_dropWhile_id)
      moreover have "?nm \<noteq> []" using ne by (auto simp: lstrip_def)
      ultimately show False using False by (simp add: endswith_last)
    qed
    then show ?thesis using hd by blast
  qed
qed

subsection \<open>Printing and parsing again\<close>

lemma str_split_plain: "c \<notin> set x \<Longrightarrow> str_split c x = [x]"
  by (induction x) auto

lemma str_split_at_sep: "c \<notin> set x \<Longrightarrow> str_split c (x @ c # rest) = x # str_split c rest"
proof (induction x)
  case Nil
  show ?case using str_split_nonempty[of c rest] by (cases "str_split c rest") auto
next
  case (Cons a x)
  then show ?case by auto
qed

lemma str_split_join:
  "ps \<noteq> [] \<Longrightarrow> \<forall>x \<in> set ps. c \<notin> set x \<Longrightarrow> str_split c (str_join [c] ps) = ps"
proof (induction ps)
  case Nil
  then show ?case by simp
next
  case (Cons x ps)
  show ?case
  proof (cases "ps = []")
    case True
    then show ?thesis using Cons.prems by (simp add: str_split_plain)
  next
    case False
    have "str_split c (x @ c # str_join [c] ps) = x # str_split c (str_join [c] ps)"
      using Cons.prems by (intro str_split_at_sep) simp
    then show ?thesis using False Cons by simp
  qed
qed

lemma str_join_snoc:
  "ps \<noteq> [] \<Longrightarrow> str_join c ps @ t = str_join c (butlast ps @ [last ps @ t])"
  by (induction ps) auto

lemma Path_str_join:
  assumes "ps \<noteq> []" and "\<forall>x \<in> set ps. x \<noteq> [] \<and> x \<noteq> ''.'' \<and> sep \<notin> set x"
  shows "Path (str_join [sep] ps) = \<lparr>root = [], parts = ps\<rparr>"
    and "path_str (Path (str_join [sep] ps)) = str_join [sep] ps"
proof -
  let ?s = "str_join [sep] ps"
  have hd: "hd ps \<noteq> []" "sep \<notin> set (hd ps)" using assms by auto
  then have "hd (hd ps) \<noteq> sep" by (metis hd_in_set)
  then have s: "?s \<noteq> []" "hd ?s \<noteq> sep" using str_join_hd[OF assms(1) hd(1)] by auto
  have sr: "splitroot ?s = ([], ?s)" using s by (simp add: splitroot_def)
  have split: "str_split sep ?s = ps" using assms by (intro str_split_join) auto
  have keep: "filter (\<lambda>x. x \<noteq> [] \<and> x \<noteq> ''.'') ps = ps" using assms(2) by (simp add: filter_id_conv)
  have single: "ps = [?s]" if "sep \<notin> set ?s"
    using str_split_plain[OF that] split by simp
  have ok: "?s \<noteq> ''.''" if "sep \<notin> set ?s"
    using single[OF that] assms(2) by (metis list.set_intros(1))
  show P: "Path ?s = \<lparr>root = [], parts = ps\<rparr>"
  proof (cases "sep \<in> set ?s")
    case True
    then show ?thesis using s(1) by (simp add: Path_def sr split keep)
  next
    case False
    then show ?thesis using s(1) ok[OF False] single[OF False] by (simp add: Path_def sr)
  qed
  show "path_str (Path ?s) = ?s" unfolding P using s(1) by (simp add: path_str_def Let_def)
qed

section \<open>The logical stem\<close>

lemma is_localized_for_None:
  "is_localized_for langs s = None \<longleftrightarrow>
     \<not> (\<exists>language \<in> set langs.
            {''.'' @ language, path_suffix (Path s)} \<subseteq> set (path_suffixes (Path s)))"
  by (auto simp: is_localized_for_def find_None_iff)

lemma non_i18n_src_path_ok:
  assumes "path_name (Path s) \<noteq> []"
  shows "non_i18n_src_path langs s =
           Inr (if is_localized_for langs s \<noteq> None
                then without_suffix (without_suffix (Path s))
                else without_suffix (Path s))"
proof -
  have "path_name (without_suffix (Path s)) \<noteq> []"
    using assms by (simp add: path_name_without_suffix name_stem_nonempty)
  then show ?thesis
    using assms by (simp add: non_i18n_src_path_def with_suffix_empty)
qed

lemma non_i18n_src_path_no_name:
  "path_name (Path s) = [] \<Longrightarrow> non_i18n_src_path langs s = Inl ValueError"
  by (simp add: non_i18n_src_path_def with_suffix_no_name)


section \<open>How \<open>__init__\<close> ends\<close>

lemma get_stem_ok:
  assumes "path_name (Path s) \<noteq> []"
  shows "non_i18n_src_path langs s = Inr (logical_stem langs s)"
    and "get_stem langs s =
           Inr (if path_name (logical_stem langs s) \<in> set [''index'', ''README'']
                then ''index'' else path_name (logical_stem langs s))"
proof -
  show *: "non_i18n_src_path langs s = Inr (logical_stem langs s)"
    using non_i18n_src_path_ok[OF assms, of langs] by (simp add: logical_stem_def)
  show "get_stem langs s =
          Inr (if path_name (logical_stem langs s) \<in> set [''index'', ''README'']
               then ''index'' else path_name (logical_stem langs s))"
    unfolding get_stem_def * by simp
qed

lemma get_stem_no_name: "path_name (Path s) = [] \<Longrightarrow> get_stem langs s = Inl ValueError"
  by (simp add: get_stem_def non_i18n_src_path_no_name)

lemma init_no_name:
  "path_name (Path (src_path file_from)) = [] \<Longrightarrow>
   I18nFile_init exists is_page file_from language langs default_language docs site udu
     = Inl ValueError"
  by (simp add: I18nFile_init_def get_stem_no_name)

lemma expected_paths_candidates:
  "expected_paths stem sfx language default_language docs =
     [(Some language, candidate docs stem (''.'' @ language) sfx),
      (Some default_language, candidate docs stem (''.'' @ default_language) sfx),
      (None, candidate docs stem [] sfx)]"
  by (simp add: expected_paths_def candidate_def)

lemma init_fallback:
  assumes "path_name (Path (src_path file_from)) \<noteq> []"
    and "exists (path_str (candidate docs (logical_stem langs (src_path file_from))
                   (''.'' @ language) (suffix (src_path file_from)))) = Inr False"
    and "exists (path_str (candidate docs (logical_stem langs (src_path file_from))
                   (''.'' @ default_language) (suffix (src_path file_from)))) = Inr False"
    and "exists (path_str (candidate docs (logical_stem langs (src_path file_from))
                   [] (suffix (src_path file_from)))) = Inr False"
  shows "I18nFile_init exists is_page file_from language langs default_language docs site udu
     = Inr \<lparr>page = page file_from,
             src_path = src_path file_from,
             abs_src_path = abs_src_path file_from,
             dest_path = dest_path file_from,
             abs_dest_path = abs_dest_path file_from,
             docs_dir = docs,
             site_dir = site,
             all_languages = langs,
             dest_language = language,
             initial_abs_src_path = abs_src_path file_from,
             initial_abs_dest_path = abs_dest_path file_from,
             initial_dest_path = dest_path file_from,
             initial_src_path = src_path file_from,
             locale_suffix = None,
             name = (if path_name (logical_stem langs (src_path file_from))
                          \<in> set [''index'', ''README'']
                     then ''index'' else path_name (logical_stem langs (src_path file_from))),
             dest_name = None,
             url = get_url (dest_path file_from) language udu\<rparr>"
  unfolding I18nFile_init_def get_stem_ok[OF assms(1)] expected_paths_candidates
  using assms(2-4) by simp

lemma init_probe_raises:
  assumes "path_name (Path (src_path file_from)) \<noteq> []"
    and "first_existing exists
           (expected_paths (logical_stem langs (src_path file_from)) (suffix (src_path file_from))
              language default_language docs) = Inl e"
  shows "I18nFile_init exists is_page file_from language langs default_language docs site udu
           = Inl e"
  unfolding I18nFile_init_def get_stem_ok[OF assms(1)] using assms(2) by simp

lemma init_Inr_url:
  "I18nFile_init exists is_page file_from language langs default_language docs site udu = Inr r
   \<Longrightarrow> url r = get_url (dest_path r) language udu \<and> dest_language r = language"
  by (auto simp: I18nFile_init_def Let_def split: sum.splits option.splits prod.splits if_splits)

lemma init_Inr_name:
  "I18nFile_init exists is_page file_from language langs default_language docs site udu = Inr r
   \<Longrightarrow> get_stem langs (src_path file_from) = Inr (name r)"
  by (auto simp: I18nFile_init_def Let_def split: sum.splits option.splits prod.splits if_splits)

lemma init_Inr_has_name:
  "I18nFile_init exists is_page file_from language langs default_language docs site udu = Inr r
   \<Longrightarrow> path_name (Path (src_path file_from)) \<noteq> []"
  using init_no_name[of file_from exists is_page language langs default_language docs site udu]
  by auto

section \<open>A candidate exists\<close>

lemma walker_path_stem:
  assumes "walker_path s"
  shows "root (logical_stem langs s) = []"
    and "path_str (logical_stem langs s) \<noteq> []"
    and "hd (path_str (logical_stem langs s)) \<noteq> sep"
    and "path_name (logical_stem langs s) \<noteq> []"
    and "sep \<notin> set (path_name (logical_stem langs s))"
    and "hd (path_name (logical_stem langs s)) \<noteq> CHR ''.''"
    and "parts (logical_stem langs s) \<noteq> []"
    and "\<forall>x \<in> set (parts (logical_stem langs s)). x \<noteq> [] \<and> x \<noteq> ''.'' \<and> sep \<notin> set x"
proof -
  define good where "good p \<longleftrightarrow> root p = [] \<and> parts p \<noteq> []
      \<and> (\<forall>x \<in> set (parts p). x \<noteq> [] \<and> x \<noteq> ''.'' \<and> sep \<notin> set x)
      \<and> hd (last (parts p)) \<noteq> CHR ''.''" for p :: path
  have P: "good (Path s)"
  proof -
    have "parts (Path s) \<noteq> []" using assms by (auto simp: walker_path_def path_name_def)
    moreover have "hd (last (parts (Path s))) \<noteq> CHR ''.''"
      using assms by (auto simp: walker_path_def path_name_def startswith_def split: list.splits if_splits)
    ultimately show ?thesis using assms Path_parts[of _ s] by (auto simp: good_def walker_path_def)
  qed
  have step: "good (without_suffix p)" if g: "good p" for p
  proof -
    have nm: "path_name p = last (parts p)" "last (parts p) \<noteq> []" "sep \<notin> set (last (parts p))"
      using g by (auto simp: good_def path_name_def)
    have ne: "name_stem (last (parts p)) \<noteq> []" using nm(2) by (rule name_stem_nonempty)
    have nosep: "sep \<notin> set (name_stem (last (parts p)))"
      using nm(3) name_stem_subset by blast
    have hd: "hd (name_stem (last (parts p))) \<noteq> CHR ''.''"
      using g nm(2) by (simp add: name_stem_hd good_def)
    have nodot: "name_stem (last (parts p)) \<noteq> ''.''"
      using hd by auto
    have "\<forall>x \<in> set (butlast (parts p)). x \<noteq> [] \<and> x \<noteq> ''.'' \<and> sep \<notin> set x"
      using g by (auto simp: good_def dest: in_set_butlastD)
    then show ?thesis using g ne nosep hd nodot by (auto simp: good_def without_suffix_def nm(1))
  qed
  have g: "good (logical_stem langs s)"
    unfolding logical_stem_def using P step by auto
  show "root (logical_stem langs s) = []" using g by (simp add: good_def)
  have "hd (parts (logical_stem langs s)) \<noteq> []" "sep \<notin> set (hd (parts (logical_stem langs s)))"
    using g by (auto simp: good_def)
  then have "hd (hd (parts (logical_stem langs s))) \<noteq> sep" by (metis hd_in_set)
  then show "path_str (logical_stem langs s) \<noteq> []" "hd (path_str (logical_stem langs s)) \<noteq> sep"
    using path_str_hd[of "logical_stem langs s"] g by (auto simp: good_def)
  show "path_name (logical_stem langs s) \<noteq> []" "sep \<notin> set (path_name (logical_stem langs s))"
    "hd (path_name (logical_stem langs s)) \<noteq> CHR ''.''"
    using g by (auto simp: good_def path_name_def)
  show "parts (logical_stem langs s) \<noteq> []"
    "\<forall>x \<in> set (parts (logical_stem langs s)). x \<noteq> [] \<and> x \<noteq> ''.'' \<and> sep \<notin> set x"
    using g by (auto simp: good_def)
qed

lemma walker_path_candidate_str:
  assumes "walker_path s" and "sep \<notin> set tail"
  shows "path_str (Path (path_str (logical_stem langs s) @ tail))
         = path_str (logical_stem langs s) @ tail"
proof -
  let ?ps = "parts (logical_stem langs s)"
  note st = walker_path_stem[OF assms(1), of langs]
  have "hd ?ps \<noteq> []" using st(7,8) by auto
  then have "str_join [sep] ?ps \<noteq> []" using str_join_hd[OF st(7)] by simp
  then have str: "path_str (logical_stem langs s) = str_join [sep] ?ps"
    using st(1) by (simp add: path_str_def Let_def)
  have last: "last ?ps \<noteq> []" "hd (last ?ps) \<noteq> CHR ''.''" "sep \<notin> set (last ?ps)"
    using st(4,5,6,7) by (simp_all add: path_name_def)
  have "last ?ps @ tail \<noteq> ''.''"
    using last(1,2) by (cases "last ?ps") auto
  then have ok: "\<forall>x \<in> set (butlast ?ps @ [last ?ps @ tail]). x \<noteq> [] \<and> x \<noteq> ''.'' \<and> sep \<notin> set x"
    using st(8) last assms(2) by (auto dest: in_set_butlastD)
  have "path_str (logical_stem langs s) @ tail = str_join [sep] (butlast ?ps @ [last ?ps @ tail])"
    unfolding str using st(7) by (rule str_join_snoc)
  then show ?thesis using Path_str_join(2)[OF _ ok] by simp
qed

lemma suffix_no_sep: "sep \<notin> set (suffix s)"
proof (cases "path_name (Path s) = []")
  case True
  then show ?thesis by (simp add: suffix_def path_suffix_def name_suffix_def rfind_def)
next
  case False
  then show ?thesis
    using Path_name[OF False] name_suffix_subset[of "path_name (Path s)"]
    by (auto simp: suffix_def path_suffix_def)
qed

lemma walker_path_stem_name:
  assumes "walker_path s"
  shows "Path (stem_name langs s) = \<lparr>root = [], parts = [stem_name langs s]\<rparr>"
    and "path_name (Path (stem_name langs s)) = stem_name langs s"
proof -
  have "stem_name langs s \<noteq> [] \<and> stem_name langs s \<noteq> ''.'' \<and> sep \<notin> set (stem_name langs s)"
    using walker_path_stem(4-6)[OF assms, of langs]
    by (auto simp: stem_name_def sep_def)
  then show "Path (stem_name langs s) = \<lparr>root = [], parts = [stem_name langs s]\<rparr>"
    by (simp add: Path_single)
  then show "path_name (Path (stem_name langs s)) = stem_name langs s"
    by (simp add: path_name_def)
qed

lemma walker_path_candidate:
  assumes "walker_path s"
  shows "relative_to (candidate docs (logical_stem langs s) mid ext) (Path docs)
         = Inr (Path (path_str (logical_stem langs s) @ mid @ ext))"
proof -
  have "root (Path (path_str (logical_stem langs s) @ mid @ ext)) = []"
    using walker_path_stem(2,3)[OF assms, of langs] by (intro Path_relative) auto
  then show ?thesis unfolding candidate_def by (rule relative_to_truediv)
qed

lemma walker_path_dest_name:
  assumes "walker_path s"
  shows "with_suffix (Path (stem_name langs s)) (suffix s)
         = Inr \<lparr>root = [], parts = [name_stem (stem_name langs s) @ suffix s]\<rparr>"
    and "with_suffix (Path (stem_name langs s)) (concat (path_suffixes (Path s)))
         = Inr \<lparr>root = [], parts = [name_stem (stem_name langs s) @ concat (path_suffixes (Path s))]\<rparr>"
proof -
  have nm: "path_name (Path s) \<noteq> []" using assms by (simp add: walker_path_def)
  have nosep: "sep \<notin> set (path_name (Path s))" using Path_name[OF nm] by simp
  have p: "path_name (Path (stem_name langs s)) \<noteq> []"
    using walker_path_stem_name(2)[OF assms, of langs] walker_path_stem(4)[OF assms, of langs]
    by (auto simp: stem_name_def)
  have s1: "sep \<notin> set (suffix s)"
    using nosep name_suffix_subset[of "path_name (Path s)"] by (auto simp: suffix_def path_suffix_def)
  have s2: "suffix s = [] \<or> (hd (suffix s) = CHR ''.'' \<and> suffix s \<noteq> ''.'')"
    using name_suffix_starts[of "path_name (Path s)"] by (auto simp: suffix_def path_suffix_def)
  show "with_suffix (Path (stem_name langs s)) (suffix s)
        = Inr \<lparr>root = [], parts = [name_stem (stem_name langs s) @ suffix s]\<rparr>"
    using with_suffix_ok[OF p s1 s2] walker_path_stem_name[OF assms, of langs] by simp
  show "with_suffix (Path (stem_name langs s)) (concat (path_suffixes (Path s)))
        = Inr \<lparr>root = [], parts = [name_stem (stem_name langs s) @ concat (path_suffixes (Path s))]\<rparr>"
    using with_suffix_ok[OF p path_suffixes_chain[OF nosep]]
      walker_path_stem_name[OF assms, of langs] by simp
qed

lemma get_stem_stem_name:
  "path_name (Path s) \<noteq> [] \<Longrightarrow> get_stem langs s = Inr (stem_name langs s)"
  by (simp add: get_stem_ok stem_name_def)

lemma init_matched:
  assumes wp: "walker_path (src_path file_from)"
    and f: "first_existing exists
              (expected_paths (logical_stem langs (src_path file_from)) (suffix (src_path file_from))
                 language default_language docs)
            = Inr (Some (l, candidate docs (logical_stem langs (src_path file_from)) mid
                              (suffix (src_path file_from))))"
  shows "I18nFile_init exists is_page file_from language langs default_language docs site udu
     = Inr \<lparr>page = page file_from,
             src_path = path_str (Path (path_str (logical_stem langs (src_path file_from)) @ mid
                                          @ suffix (src_path file_from))),
             abs_src_path =
               path_str (truediv (Path docs)
                  (Path (path_str (logical_stem langs (src_path file_from)) @ mid
                          @ suffix (src_path file_from)))),
             dest_path =
               get_dest_path is_page
                 (Path (path_str (logical_stem langs (src_path file_from)) @ mid
                          @ suffix (src_path file_from)))
                 (stem_name langs (src_path file_from))
                 \<lparr>root = [], parts = [name_stem (stem_name langs (src_path file_from))
                      @ (if l \<noteq> None \<and> l \<noteq> Some [] then suffix (src_path file_from)
                         else concat (path_suffixes (Path (src_path file_from))))]\<rparr>
                 udu,
             abs_dest_path =
               path_str (truediv (truediv (Path site) (Path language))
                  (Path (get_dest_path is_page
                     (Path (path_str (logical_stem langs (src_path file_from)) @ mid
                              @ suffix (src_path file_from)))
                     (stem_name langs (src_path file_from))
                     \<lparr>root = [], parts = [name_stem (stem_name langs (src_path file_from))
                          @ (if l \<noteq> None \<and> l \<noteq> Some [] then suffix (src_path file_from)
                             else concat (path_suffixes (Path (src_path file_from))))]\<rparr>
                     udu))),
             docs_dir = docs,
             site_dir = site,
             all_languages = langs,
             dest_language = language,
             initial_abs_src_path = abs_src_path file_from,
             initial_abs_dest_path = abs_dest_path file_from,
             initial_dest_path = dest_path file_from,
             initial_src_path = src_path file_from,
             locale_suffix = l,
             name = stem_name langs (src_path file_from),
             dest_name =
               Some \<lparr>root = [], parts = [name_stem (stem_name langs (src_path file_from))
                      @ (if l \<noteq> None \<and> l \<noteq> Some [] then suffix (src_path file_from)
                         else concat (path_suffixes (Path (src_path file_from))))]\<rparr>,
             url = get_url
                 (get_dest_path is_page
                    (Path (path_str (logical_stem langs (src_path file_from)) @ mid
                             @ suffix (src_path file_from)))
                    (stem_name langs (src_path file_from))
                    \<lparr>root = [], parts = [name_stem (stem_name langs (src_path file_from))
                         @ (if l \<noteq> None \<and> l \<noteq> Some [] then suffix (src_path file_from)
                            else concat (path_suffixes (Path (src_path file_from))))]\<rparr>
                    udu)
                 language udu\<rparr>"
proof -
  have nm: "path_name (Path (src_path file_from)) \<noteq> []" using wp by (simp add: walker_path_def)
  show ?thesis
    by (simp add: I18nFile_init_def get_stem_stem_name[OF nm] get_stem_ok(1)[OF nm] f
          walker_path_candidate[OF wp] walker_path_dest_name[OF wp] Let_def)
qed

section \<open>The URL\<close>

lemma all_same_replicate: "set h \<subseteq> {c} \<longleftrightarrow> h = replicate (length h) c"
  by (induction h) auto

lemma os_path_split_last_sep:
  "os_path_split p =
     (let up_to_sep = rev (dropWhile (\<lambda>c. c \<noteq> sep) (rev p))
      in (if set up_to_sep \<subseteq> {sep} then up_to_sep else rstrip sep up_to_sep,
          rev (takeWhile (\<lambda>c. c \<noteq> sep) (rev p))))"
proof (cases "sep \<in> set p")
  case False
  then have "\<forall>x \<in> set (rev p). x \<noteq> sep" by auto
  then have tw: "takeWhile (\<lambda>c. c \<noteq> sep) (rev p) = rev p"
    and dw: "dropWhile (\<lambda>c. c \<noteq> sep) (rev p) = []"
    by (simp_all add: takeWhile_eq_all_conv dropWhile_eq_Nil_conv)
  have "os_path_split p = ([], p)"
    using False by (simp add: os_path_split_def rfind_absent)
  then show ?thesis unfolding Let_def tw dw by simp
next
  case True
  then obtain a b where p: "p = a @ sep # b" and b: "sep \<notin> set b"
    by (meson split_list_last)
  from b have nb: "\<forall>x \<in> set (rev b). x \<noteq> sep" by auto
  have tw: "takeWhile (\<lambda>c. c \<noteq> sep) (rev p) = rev b"
    unfolding p using nb by (simp add: takeWhile_tail)
  have dw: "dropWhile (\<lambda>c. c \<noteq> sep) (rev p) = sep # rev a"
    unfolding p using nb by (simp add: dropWhile_append3)
  have rf: "nat (rfind p sep + 1) = Suc (length a)"
    unfolding p using b by (simp add: rfind_last_occurrence)
  have tk: "take (Suc (length a)) p = a @ [sep]" and dr: "drop (Suc (length a)) p = b"
    unfolding p by simp_all
  have "os_path_split p = (if a @ [sep] \<noteq> replicate (length (a @ [sep])) sep then rstrip sep (a @ [sep]) else a @ [sep], b)"
    unfolding os_path_split_def rf Let_def tk dr by simp
  also have "\<dots> = (if set (a @ [sep]) \<subseteq> {sep} then a @ [sep] else rstrip sep (a @ [sep]), b)"
    unfolding all_same_replicate[of "a @ [sep]" sep] by simp
  finally show ?thesis
    unfolding Let_def tw dw by simp
qed

lemma get_url_spec:
  assumes "language \<noteq> []"
  shows "get_url d language udu = spec_url d language (udu = Some True)"
proof -
  obtain dirname filename where sp: "os_path_split (replace sep CHR ''/'' d) = (dirname, filename)"
    by (cases "os_path_split (replace sep CHR ''/'' d)")
  have f: "filename = rev (takeWhile (\<lambda>c. c \<noteq> CHR ''/'') (rev (replace sep CHR ''/'' d)))"
    and dn: "dirname =
          (if set (rev (dropWhile (\<lambda>c. c \<noteq> CHR ''/'') (rev (replace sep CHR ''/'' d))))
                \<subseteq> {CHR ''/''}
           then rev (dropWhile (\<lambda>c. c \<noteq> CHR ''/'') (rev (replace sep CHR ''/'' d)))
           else rstrip CHR ''/''
                  (rev (dropWhile (\<lambda>c. c \<noteq> CHR ''/'') (rev (replace sep CHR ''/'' d)))))"
    using sp unfolding os_path_split_last_sep Let_def sep_def by simp_all
  show ?thesis
    unfolding get_url_def spec_url_def sp Let_def prod.case f[symmetric] dn[symmetric]
    using assms by simp
qed


section \<open>The destination path\<close>

lemma rstrip_not_endswith: "\<not> endswith (rstrip c s) c"
proof (cases "dropWhile (\<lambda>x. x = c) (rev s)")
  case Nil
  show ?thesis unfolding endswith_def rstrip_def rev_rev_ident Nil by simp
next
  case (Cons a as)
  then have "a \<noteq> c" using hd_dropWhile[of "\<lambda>x. x = c" "rev s"] by auto
  then show ?thesis unfolding endswith_def rstrip_def rev_rev_ident Cons by simp
qed

lemma os_path_split_relative:
  assumes "p = [] \<or> hd p \<noteq> sep"
  shows "fst (os_path_split p) = parent_dir p"
proof -
  define up where "up = rev (dropWhile (\<lambda>c. c \<noteq> sep) (rev p))"
  define tail where "tail = rev (takeWhile (\<lambda>c. c \<noteq> sep) (rev p))"
  have "rev (takeWhile (\<lambda>c. c \<noteq> sep) (rev p) @ dropWhile (\<lambda>c. c \<noteq> sep) (rev p)) = p"
    by simp
  then have p: "up @ tail = p" unfolding up_def tail_def by (simp only: rev_append)
  have empty: "up = []" if sub: "set up \<subseteq> {sep}"
  proof (rule ccontr)
    assume ne: "up \<noteq> []"
    have "hd up \<in> set up" using ne by (rule hd_in_set)
    then have "hd up = sep" using sub by auto
    moreover have "hd up = hd p" using ne p hd_append2[of up tail] by simp
    moreover have "p \<noteq> []" using ne p by auto
    ultimately show False using assms by simp
  qed
  have split: "os_path_split p = (if set up \<subseteq> {sep} then up else rstrip sep up, tail)"
    unfolding os_path_split_last_sep Let_def up_def tail_def by (rule refl)
  have "fst (os_path_split p) = rstrip sep up"
  proof (cases "set up \<subseteq> {sep}")
    case True
    then show ?thesis unfolding split using empty by (simp add: rstrip_def)
  next
    case False
    then show ?thesis unfolding split by simp
  qed
  then show ?thesis unfolding up_def by (simp add: parent_dir_def sep_def)
qed

lemma os_path_join_one:
  "\<not> startswith x sep \<Longrightarrow> \<not> endswith parent sep \<Longrightarrow> os_path_join parent [x] = path_under parent x"
  by (simp add: path_under_def sep_def)

lemma os_path_join_two:
  assumes "a \<noteq> []" and "sep \<notin> set a" and "\<not> startswith b sep" and "\<not> endswith parent sep"
  shows "os_path_join parent [a, b] = path_under (path_under parent a) b"
proof -
  have sa: "\<not> startswith a sep" using assms(1,2) by (cases a) (auto simp: startswith_def)
  have "last a \<noteq> sep" using assms(1,2) last_in_set by metis
  then have ea: "\<not> endswith (path_under parent a) sep" and ne: "path_under parent a \<noteq> []"
    using assms(1) by (auto simp: endswith_last path_under_def)
  have "os_path_join parent [a, b] = os_path_join (path_under parent a) [b]"
    using sa assms(4) by (simp add: path_under_def sep_def)
  then show ?thesis using os_path_join_one[OF assms(3) ea] by simp
qed

lemma path_str_relative:
  assumes "root sp = []" and "\<forall>x \<in> set (parts sp). x \<noteq> [] \<and> sep \<notin> set x"
  shows "path_str sp = [] \<or> hd (path_str sp) \<noteq> sep"
proof (cases "parts sp")
  case Nil
  then show ?thesis using assms(1) by (simp add: path_str_def sep_def)
next
  case (Cons x xs)
  then have "x \<noteq> []" "sep \<notin> set x" using assms(2) by auto
  then have "hd x \<noteq> sep" by (metis hd_in_set)
  then show ?thesis
    using path_str_hd[of sp] assms(1) Cons \<open>x \<noteq> []\<close> by simp
qed

lemma get_dest_path_under:
  assumes "root sp = []" and "\<forall>x \<in> set (parts sp). x \<noteq> [] \<and> sep \<notin> set x"
    and "nm \<noteq> []" and "sep \<notin> set nm" and "fname \<noteq> []" and "hd fname \<noteq> sep"
  shows "get_dest_path is_page sp nm \<lparr>root = [], parts = [fname]\<rparr> udu =
           (if is_page (path_str sp)
            then (if udu = Some False \<or> nm = ''index''
                  then path_under (parent_dir (path_str sp)) (nm @ ''.html'')
                  else path_under (path_under (parent_dir (path_str sp)) nm) ''index.html'')
            else path_under (parent_dir (path_str sp)) fname)"
proof -
  have par: "fst (os_path_split (path_str sp)) = parent_dir (path_str sp)"
    using path_str_relative[OF assms(1,2)] by (rule os_path_split_relative)
  have pe: "\<not> endswith (parent_dir (path_str sp)) sep"
    unfolding parent_dir_def sep_def by (rule rstrip_not_endswith)
  have s1: "\<not> startswith (nm @ ''.html'') sep"
    using assms(3,4) by (cases nm) (auto simp: startswith_def)
  have s2: "\<not> startswith ''index.html'' sep" by (simp add: startswith_def sep_def)
  have s3: "\<not> startswith fname sep" using assms(5,6) by (cases fname) (auto simp: startswith_def)
  have f: "path_str \<lparr>root = [], parts = [fname]\<rparr> = fname"
    using assms(5) by (simp add: path_str_def)
  obtain parent tail where sp: "os_path_split (path_str sp) = (parent, tail)"
    by (cases "os_path_split (path_str sp)")
  then have parent: "parent = parent_dir (path_str sp)" using par by simp
  have "get_dest_path is_page sp nm \<lparr>root = [], parts = [fname]\<rparr> udu =
          (if is_page (path_str sp)
           then (if udu = Some False \<or> nm = ''index''
                 then os_path_join (parent_dir (path_str sp)) [nm @ ''.html'']
                 else os_path_join (parent_dir (path_str sp)) [nm, ''index.html''])
           else os_path_join (parent_dir (path_str sp)) [fname])"
    unfolding get_dest_path_def sp prod.case Let_def f parent by (rule refl)
  then show ?thesis
    unfolding os_path_join_one[OF s1 pe] os_path_join_one[OF s3 pe]
      os_path_join_two[OF assms(3,4) s2 pe] .
qed

section \<open>The first existing candidate wins\<close>

lemma first_existing_expected_paths:
  "first_existing exists (expected_paths stem ext language default_language docs) =
     (case exists (path_str (candidate docs stem (''.'' @ language) ext)) of
        Inl e \<Rightarrow> Inl e
      | Inr found1 \<Rightarrow>
          if found1 then Inr (Some (Some language, candidate docs stem (''.'' @ language) ext))
          else
     (case exists (path_str (candidate docs stem (''.'' @ default_language) ext)) of
        Inl e \<Rightarrow> Inl e
      | Inr found2 \<Rightarrow>
          if found2
          then Inr (Some (Some default_language, candidate docs stem (''.'' @ default_language) ext))
          else
     (case exists (path_str (candidate docs stem [] ext)) of
        Inl e \<Rightarrow> Inl e
      | Inr found3 \<Rightarrow>
          if found3 then Inr (Some (None, candidate docs stem [] ext)) else Inr None)))"
  by (simp add: expected_paths_candidates split: sum.splits)

text \<open>
  C1. For a walker path (relative, with a file name that does not start with a dot), the
  list of candidates is, in this order: under the documentation directory, the logical
  stem followed by \<open>.<requested locale>\<close> and the extension, with the requested locale;
  the stem followed by \<open>.<default locale>\<close> and the extension, with the default locale;
  the stem followed by the extension, with no locale. The candidates are probed in that
  order, and the constructor returns a file whose source path is the first candidate that
  exists (relative to the documentation directory), the ones before it having been found
  absent, and whose locale suffix is the locale of that candidate; when all three are
  found absent it returns the walker's source path with no locale suffix. For a locale
  without a separator the source path of a candidate is, character by character, the
  stem, a dot, the locale and the extension.
\<close>

theorem first_existing_candidate_wins:
  fixes exists :: file_system and is_page :: "string \<Rightarrow> bool" and file_from :: File
    and language default_language docs site :: string and langs :: "string list"
    and udu :: "bool option"
  assumes "walker_path (src_path file_from)"
  defines "stem \<equiv> logical_stem langs (src_path file_from)"
    and "ext \<equiv> suffix (src_path file_from)"
  defines "c1 \<equiv> candidate docs stem (''.'' @ language) ext"
    and "c2 \<equiv> candidate docs stem (''.'' @ default_language) ext"
    and "c3 \<equiv> candidate docs stem [] ext"
  defines "res \<equiv> I18nFile_init exists is_page file_from language langs default_language docs site udu"
  shows "expected_paths stem ext language default_language docs
           = [(Some language, c1), (Some default_language, c2), (None, c3)]
    \<and> non_i18n_src_path langs (src_path file_from) = Inr stem
    \<and> (exists (path_str c1) = Inr True \<longrightarrow>
          (\<exists>r. res = Inr r \<and> locale_suffix r = Some language
             \<and> src_path r = path_str (Path (path_str stem @ ''.'' @ language @ ext))
             \<and> abs_src_path r = path_str c1))
    \<and> (exists (path_str c1) = Inr False \<and> exists (path_str c2) = Inr True \<longrightarrow>
          (\<exists>r. res = Inr r \<and> locale_suffix r = Some default_language
             \<and> src_path r = path_str (Path (path_str stem @ ''.'' @ default_language @ ext))
             \<and> abs_src_path r = path_str c2))
    \<and> (exists (path_str c1) = Inr False \<and> exists (path_str c2) = Inr False
         \<and> exists (path_str c3) = Inr True \<longrightarrow>
          (\<exists>r. res = Inr r \<and> locale_suffix r = None
             \<and> src_path r = path_str (Path (path_str stem @ ext))
             \<and> abs_src_path r = path_str c3))
    \<and> (exists (path_str c1) = Inr False \<and> exists (path_str c2) = Inr False
         \<and> exists (path_str c3) = Inr False \<longrightarrow>
          (\<exists>r. res = Inr r \<and> locale_suffix r = None
             \<and> src_path r = src_path file_from
             \<and> abs_src_path r = abs_src_path file_from))
    \<and> (sep \<notin> set language \<longrightarrow>
          path_str (Path (path_str stem @ ''.'' @ language @ ext))
            = path_str stem @ ''.'' @ language @ ext)
    \<and> (sep \<notin> set default_language \<longrightarrow>
          path_str (Path (path_str stem @ ''.'' @ default_language @ ext))
            = path_str stem @ ''.'' @ default_language @ ext)
    \<and> path_str (Path (path_str stem @ ext)) = path_str stem @ ext"
proof (intro conjI impI)
  have nm: "path_name (Path (src_path file_from)) \<noteq> []"
    using assms(1) by (simp add: walker_path_def)
  show "expected_paths stem ext language default_language docs
          = [(Some language, c1), (Some default_language, c2), (None, c3)]"
    unfolding c1_def c2_def c3_def by (rule expected_paths_candidates)
  show "non_i18n_src_path langs (src_path file_from) = Inr stem"
    unfolding stem_def by (rule get_stem_ok(1)[OF nm])
  {
    assume e: "exists (path_str c1) = Inr True"
    have f: "first_existing exists
               (expected_paths (logical_stem langs (src_path file_from))
                  (suffix (src_path file_from)) language default_language docs)
             = Inr (Some (Some language, candidate docs (logical_stem langs (src_path file_from))
                       (''.'' @ language) (suffix (src_path file_from))))"
      using e unfolding c1_def stem_def ext_def by (simp add: first_existing_expected_paths)
    show "\<exists>r. res = Inr r \<and> locale_suffix r = Some language
            \<and> src_path r = path_str (Path (path_str stem @ ''.'' @ language @ ext))
            \<and> abs_src_path r = path_str c1"
      unfolding res_def init_matched[OF assms(1) f] c1_def stem_def ext_def candidate_def
      by simp
  }
  {
    assume e: "exists (path_str c1) = Inr False \<and> exists (path_str c2) = Inr True"
    have f: "first_existing exists
               (expected_paths (logical_stem langs (src_path file_from))
                  (suffix (src_path file_from)) language default_language docs)
             = Inr (Some (Some default_language, candidate docs (logical_stem langs (src_path file_from))
                       (''.'' @ default_language) (suffix (src_path file_from))))"
      using e unfolding c1_def c2_def stem_def ext_def by (simp add: first_existing_expected_paths)
    show "\<exists>r. res = Inr r \<and> locale_suffix r = Some default_language
            \<and> src_path r = path_str (Path (path_str stem @ ''.'' @ default_language @ ext))
            \<and> abs_src_path r = path_str c2"
      unfolding res_def init_matched[OF assms(1) f] c2_def stem_def ext_def candidate_def
      by simp
  }
  {
    assume e: "exists (path_str c1) = Inr False \<and> exists (path_str c2) = Inr False
         \<and> exists (path_str c3) = Inr True"
    have f: "first_existing exists
               (expected_paths (logical_stem langs (src_path file_from))
                  (suffix (src_path file_from)) language default_language docs)
             = Inr (Some (None, candidate docs (logical_stem langs (src_path file_from))
                       [] (suffix (src_path file_from))))"
      using e unfolding c1_def c2_def c3_def stem_def ext_def by (simp add: first_existing_expected_paths)
    show "\<exists>r. res = Inr r \<and> locale_suffix r = None
            \<and> src_path r = path_str (Path (path_str stem @ ext))
            \<and> abs_src_path r = path_str c3"
      unfolding res_def init_matched[OF assms(1) f] c3_def stem_def ext_def candidate_def
      by simp
  }
  {
    assume e: "exists (path_str c1) = Inr False \<and> exists (path_str c2) = Inr False
         \<and> exists (path_str c3) = Inr False"
    show "\<exists>r. res = Inr r \<and> locale_suffix r = None
            \<and> src_path r = src_path file_from
            \<and> abs_src_path r = abs_src_path file_from"
      using e unfolding res_def c1_def c2_def c3_def stem_def ext_def
      by (simp add: init_fallback[OF nm])
  }
  have ext: "sep \<notin> set ext" unfolding ext_def by (rule suffix_no_sep)
  {
    assume "sep \<notin> set language"
    then have "sep \<notin> set (''.'' @ language @ ext)" using ext by (simp add: sep_def)
    then show "path_str (Path (path_str stem @ ''.'' @ language @ ext))
                 = path_str stem @ ''.'' @ language @ ext"
      unfolding stem_def by (rule walker_path_candidate_str[OF assms(1)])
  }
  {
    assume "sep \<notin> set default_language"
    then have "sep \<notin> set (''.'' @ default_language @ ext)" using ext by (simp add: sep_def)
    then show "path_str (Path (path_str stem @ ''.'' @ default_language @ ext))
                 = path_str stem @ ''.'' @ default_language @ ext"
      unfolding stem_def by (rule walker_path_candidate_str[OF assms(1)])
  }
  show "path_str (Path (path_str stem @ ext)) = path_str stem @ ext"
    unfolding stem_def using ext by (rule walker_path_candidate_str[OF assms(1)])
qed

theorem first_existing_candidate_wins_witness:
  "field src_path (example_init ''guide/intro.md'' ''guide/intro/index.html'' (Some True))
     = Some ''guide/intro.fr.md''
   \<and> field locale_suffix (example_init ''guide/intro.md'' ''guide/intro/index.html'' (Some True))
     = Some (Some ''fr'')
   \<and> field src_path (example_init ''guide/setup.md'' ''guide/setup/index.html'' (Some True))
     = Some ''guide/setup.en.md''
   \<and> field locale_suffix (example_init ''guide/setup.md'' ''guide/setup/index.html'' (Some True))
     = Some (Some ''en'')"
proof -
  have w1: "walker_path (src_path (example_file ''guide/intro.md'' ''guide/intro/index.html''))"
    by code_simp
  have w2: "walker_path (src_path (example_file ''guide/setup.md'' ''guide/setup/index.html''))"
    by code_simp
  have e1: "example_docs (path_str (candidate ''docs''
              (logical_stem [''en'', ''fr'', ''de'']
                 (src_path (example_file ''guide/intro.md'' ''guide/intro/index.html'')))
              (''.'' @ ''fr'')
              (suffix (src_path (example_file ''guide/intro.md'' ''guide/intro/index.html'')))))
            = Inr True"
    by code_simp
  have p1: "path_str (Path (path_str (logical_stem [''en'', ''fr'', ''de'']
                 (src_path (example_file ''guide/intro.md'' ''guide/intro/index.html'')))
              @ ''.'' @ ''fr''
              @ suffix (src_path (example_file ''guide/intro.md'' ''guide/intro/index.html''))))
            = ''guide/intro.fr.md''"
    by code_simp
  have e2: "example_docs (path_str (candidate ''docs''
              (logical_stem [''en'', ''fr'', ''de'']
                 (src_path (example_file ''guide/setup.md'' ''guide/setup/index.html'')))
              (''.'' @ ''fr'')
              (suffix (src_path (example_file ''guide/setup.md'' ''guide/setup/index.html'')))))
            = Inr False
          \<and> example_docs (path_str (candidate ''docs''
              (logical_stem [''en'', ''fr'', ''de'']
                 (src_path (example_file ''guide/setup.md'' ''guide/setup/index.html'')))
              (''.'' @ ''en'')
              (suffix (src_path (example_file ''guide/setup.md'' ''guide/setup/index.html'')))))
            = Inr True"
    by code_simp
  have p2: "path_str (Path (path_str (logical_stem [''en'', ''fr'', ''de'']
                 (src_path (example_file ''guide/setup.md'' ''guide/setup/index.html'')))
              @ ''.'' @ ''en''
              @ suffix (src_path (example_file ''guide/setup.md'' ''guide/setup/index.html''))))
            = ''guide/setup.en.md''"
    by code_simp
  note t1 = first_existing_candidate_wins[OF w1, where exists = example_docs
      and is_page = example_is_page and language = "''fr''" and langs = "[''en'', ''fr'', ''de'']"
      and default_language = "''en''" and docs = "''docs''" and site = "''site''"
      and udu = "Some True"]
  note t2 = first_existing_candidate_wins[OF w2, where exists = example_docs
      and is_page = example_is_page and language = "''fr''" and langs = "[''en'', ''fr'', ''de'']"
      and default_language = "''en''" and docs = "''docs''" and site = "''site''"
      and udu = "Some True"]
  from t1 e1 p1 obtain r1 where
    "example_init ''guide/intro.md'' ''guide/intro/index.html'' (Some True) = Inr r1"
    "locale_suffix r1 = Some ''fr''" "src_path r1 = ''guide/intro.fr.md''"
    unfolding example_init_def by auto
  moreover from t2 e2 p2 obtain r2 where
    "example_init ''guide/setup.md'' ''guide/setup/index.html'' (Some True) = Inr r2"
    "locale_suffix r2 = Some ''en''" "src_path r2 = ''guide/setup.en.md''"
    unfolding example_init_def by auto
  ultimately show ?thesis by (simp add: field_def)
qed

section \<open>No candidate exists\<close>

text \<open>
  C2, as amended. Let the walker's path have a file name. When the three probes complete
  and find no candidate, the constructor raises nothing: it returns a file with the
  source path and the destination path the walker supplied, whatever the locales are.
  When a probe raises, the probes before it having found nothing, the constructor raises
  that error, for nothing catches it.
\<close>

theorem fallback_when_probes_complete:
  fixes exists :: file_system and is_page :: "string \<Rightarrow> bool" and file_from :: File
    and language default_language docs site :: string and langs :: "string list"
    and udu :: "bool option" and e :: error
  assumes "path_name (Path (src_path file_from)) \<noteq> []"
  defines "stem \<equiv> logical_stem langs (src_path file_from)"
    and "ext \<equiv> suffix (src_path file_from)"
  defines "c1 \<equiv> candidate docs stem (''.'' @ language) ext"
    and "c2 \<equiv> candidate docs stem (''.'' @ default_language) ext"
    and "c3 \<equiv> candidate docs stem [] ext"
  defines "res \<equiv> I18nFile_init exists is_page file_from language langs default_language docs site udu"
  shows "(exists (path_str c1) = Inr False \<and> exists (path_str c2) = Inr False
          \<and> exists (path_str c3) = Inr False \<longrightarrow>
            (\<exists>r. res = Inr r \<and> src_path r = src_path file_from
               \<and> dest_path r = dest_path file_from))
    \<and> (exists (path_str c1) = Inl e \<longrightarrow> res = Inl e)
    \<and> (exists (path_str c1) = Inr False \<and> exists (path_str c2) = Inl e \<longrightarrow> res = Inl e)
    \<and> (exists (path_str c1) = Inr False \<and> exists (path_str c2) = Inr False
          \<and> exists (path_str c3) = Inl e \<longrightarrow> res = Inl e)"
proof (intro conjI impI)
  assume "exists (path_str c1) = Inr False \<and> exists (path_str c2) = Inr False
          \<and> exists (path_str c3) = Inr False"
  then show "\<exists>r. res = Inr r \<and> src_path r = src_path file_from
               \<and> dest_path r = dest_path file_from"
    unfolding res_def c1_def c2_def c3_def stem_def ext_def
    by (simp add: init_fallback[OF assms(1)])
next
  assume "exists (path_str c1) = Inl e"
  then have "first_existing exists (expected_paths stem ext language default_language docs) = Inl e"
    unfolding c1_def by (simp add: first_existing_expected_paths)
  then show "res = Inl e"
    unfolding res_def stem_def ext_def by (rule init_probe_raises[OF assms(1)])
next
  assume "exists (path_str c1) = Inr False \<and> exists (path_str c2) = Inl e"
  then have "first_existing exists (expected_paths stem ext language default_language docs) = Inl e"
    unfolding c1_def c2_def by (simp add: first_existing_expected_paths)
  then show "res = Inl e"
    unfolding res_def stem_def ext_def by (rule init_probe_raises[OF assms(1)])
next
  assume "exists (path_str c1) = Inr False \<and> exists (path_str c2) = Inr False
          \<and> exists (path_str c3) = Inl e"
  then have "first_existing exists (expected_paths stem ext language default_language docs) = Inl e"
    unfolding c1_def c2_def c3_def by (simp add: first_existing_expected_paths)
  then show "res = Inl e"
    unfolding res_def stem_def ext_def by (rule init_probe_raises[OF assms(1)])
qed

theorem fallback_when_probes_complete_witness:
  "field src_path (example_init ''img/photo.png'' ''img/photo.png'' (Some True))
     = Some ''img/photo.png''
   \<and> field dest_path (example_init ''img/photo.png'' ''img/photo.png'' (Some True))
     = Some ''img/photo.png''
   \<and> I18nFile_init empty_docs example_is_page
       (example_file (long_name @ ''.md'') (long_name @ ''/index.html''))
       ''fr'' [''en'', ''fr'', ''de''] ''en'' ''docs'' ''site'' (Some True)
     = Inl OSError"
proof -
  have h: "path_name (Path (src_path (example_file ''img/photo.png'' ''img/photo.png''))) \<noteq> []"
    by code_simp
  have e: "example_docs (path_str (candidate ''docs''
              (logical_stem [''en'', ''fr'', ''de'']
                 (src_path (example_file ''img/photo.png'' ''img/photo.png'')))
              (''.'' @ ''fr'') (suffix (src_path (example_file ''img/photo.png'' ''img/photo.png'')))))
            = Inr False
         \<and> example_docs (path_str (candidate ''docs''
              (logical_stem [''en'', ''fr'', ''de'']
                 (src_path (example_file ''img/photo.png'' ''img/photo.png'')))
              (''.'' @ ''en'') (suffix (src_path (example_file ''img/photo.png'' ''img/photo.png'')))))
            = Inr False
         \<and> example_docs (path_str (candidate ''docs''
              (logical_stem [''en'', ''fr'', ''de'']
                 (src_path (example_file ''img/photo.png'' ''img/photo.png'')))
              [] (suffix (src_path (example_file ''img/photo.png'' ''img/photo.png'')))))
            = Inr False"
    by code_simp
  have h': "path_name (Path (src_path
              (example_file (long_name @ ''.md'') (long_name @ ''/index.html'')))) \<noteq> []"
    by code_simp
  have e': "empty_docs (path_str (candidate ''docs''
              (logical_stem [''en'', ''fr'', ''de'']
                 (src_path (example_file (long_name @ ''.md'') (long_name @ ''/index.html''))))
              (''.'' @ ''fr'')
              (suffix (src_path (example_file (long_name @ ''.md'') (long_name @ ''/index.html''))))))
            = Inl OSError"
    by code_simp
  from fallback_when_probes_complete[OF h, where exists = example_docs
      and is_page = example_is_page and language = "''fr''" and langs = "[''en'', ''fr'', ''de'']"
      and default_language = "''en''" and docs = "''docs''" and site = "''site''"
      and udu = "Some True", THEN conjunct1, THEN mp, OF e]
  obtain r where "example_init ''img/photo.png'' ''img/photo.png'' (Some True) = Inr r"
    "src_path r = src_path (example_file ''img/photo.png'' ''img/photo.png'')"
    "dest_path r = dest_path (example_file ''img/photo.png'' ''img/photo.png'')"
    unfolding example_init_def by auto
  then have "field src_path (example_init ''img/photo.png'' ''img/photo.png'' (Some True))
               = Some ''img/photo.png''"
    and "field dest_path (example_init ''img/photo.png'' ''img/photo.png'' (Some True))
               = Some ''img/photo.png''"
    by (simp_all add: field_def example_file_def)
  moreover have "I18nFile_init empty_docs example_is_page
       (example_file (long_name @ ''.md'') (long_name @ ''/index.html''))
       ''fr'' [''en'', ''fr'', ''de''] ''en'' ''docs'' ''site'' (Some True)
     = Inl OSError"
    by (rule fallback_when_probes_complete[OF h', where exists = empty_docs
      and language = "''fr''" and default_language = "''en''" and docs = "''docs''"
      and e = OSError, THEN conjunct2, THEN conjunct1, THEN mp, OF e'])
  ultimately show ?thesis by (intro conjI)
qed

text \<open>
  C2 as stated fails. The documentation directory holds no file, so none of the three
  candidates exists, and names are limited to 255 bytes. The walker's file has a name of
  253 bytes; with \<open>.fr\<close> before the extension the name of the first candidate has 256
  bytes, its probe raises \<open>OSError\<close> (\<open>ENAMETOOLONG\<close>), and so does the constructor.
\<close>

theorem fallback_raises_counterexample:
  "length (long_name @ ''.md'') = 253
   \<and> empty_docs (path_str (candidate ''docs''
        (logical_stem [''en'', ''fr'', ''de''] (long_name @ ''.md'')) ''.fr'' ''.md''))
     = Inl OSError
   \<and> empty_docs (path_str (candidate ''docs''
        (logical_stem [''en'', ''fr'', ''de''] (long_name @ ''.md'')) ''.en'' ''.md''))
     = Inl OSError
   \<and> empty_docs (path_str (candidate ''docs''
        (logical_stem [''en'', ''fr'', ''de''] (long_name @ ''.md'')) [] ''.md''))
     = Inr False
   \<and> I18nFile_init empty_docs example_is_page
       (example_file (long_name @ ''.md'') (long_name @ ''/index.html''))
       ''fr'' [''en'', ''fr'', ''de''] ''en'' ''docs'' ''site'' (Some True)
     = Inl OSError"
  by code_simp

section \<open>The collection keeps the first file of each destination\<close>

lemma append_cases:
  "append files f = (if dest_path f \<in> set (map dest_path files) then files else files @ [f])"
proof -
  have "list_ex (\<lambda>inside_file. dest_path inside_file = dest_path f) files
        \<longleftrightarrow> dest_path f \<in> set (map dest_path files)"
    unfolding list_ex_iff set_map image_iff by metis
  then show ?thesis by (simp add: append_def)
qed

lemma first_of_each_cong:
  "set seen = set seen' \<Longrightarrow> first_of_each seen fs = first_of_each seen' fs"
proof (induction fs arbitrary: seen seen')
  case Nil
  show ?case by simp
next
  case (Cons f fs)
  have "first_of_each (dest_path f # seen) fs = first_of_each (dest_path f # seen') fs"
    by (rule Cons.IH) (simp add: Cons.prems)
  moreover have "first_of_each seen fs = first_of_each seen' fs"
    by (rule Cons.IH) (rule Cons.prems)
  ultimately show ?case using Cons.prems by simp
qed

lemma append_all_first_of_each:
  "append_all files fs = files @ first_of_each (map dest_path files) fs"
proof (induction fs arbitrary: files)
  case Nil
  show ?case by simp
next
  case (Cons f fs)
  show ?case
  proof (cases "dest_path f \<in> set (map dest_path files)")
    case True
    then show ?thesis using Cons[of files] by (simp add: append_cases)
  next
    case False
    have "first_of_each (map dest_path (files @ [f])) fs
          = first_of_each (dest_path f # map dest_path files) fs"
      by (rule first_of_each_cong) auto
    then show ?thesis using False Cons[of "files @ [f]"] by (simp add: append_cases)
  qed
qed

lemma append_distinct:
  "distinct (map dest_path files) \<Longrightarrow> distinct (map dest_path (append files f))"
  by (auto simp: append_cases)

lemma append_all_distinct:
  "distinct (map dest_path files) \<Longrightarrow> distinct (map dest_path (append_all files fs))"
  by (induction fs arbitrary: files) (auto simp: append_distinct)

text \<open>
  C3. Appending a file whose \<open>dest_path\<close> is that of a member leaves the collection as it
  is (the earlier member stays, at its place); any other file goes last. So a sequence of
  appends adds, in the order of insertion, the first file of each new \<open>dest_path\<close> and
  nothing else; it keeps the destinations of a collection distinct, and a collection
  built from the empty one by appends has no two members with the same \<open>dest_path\<close>.
\<close>

theorem append_first_wins:
  fixes files fs :: "('a File_scheme) list"
  shows "(dest_path f \<in> set (map dest_path files) \<longrightarrow> append files f = files)
    \<and> (dest_path f \<notin> set (map dest_path files) \<longrightarrow> append files f = files @ [f])
    \<and> append_all files fs = files @ first_of_each (map dest_path files) fs
    \<and> (distinct (map dest_path files) \<longrightarrow> distinct (map dest_path (append_all files fs)))
    \<and> distinct (map dest_path (append_all [] fs))"
  using append_all_first_of_each[of files fs] append_all_distinct[of files fs]
    append_all_distinct[of "[]" fs]
  by (simp add: append_cases)

theorem append_first_wins_witness:
  "append
     [\<lparr>page = None, src_path = ''guide/intro.fr.md'', abs_src_path = ''docs/guide/intro.fr.md'',
       dest_path = ''guide/intro/index.html'', abs_dest_path = ''site/fr/guide/intro/index.html''\<rparr>]
     \<lparr>page = None, src_path = ''guide/intro.en.md'', abs_src_path = ''docs/guide/intro.en.md'',
      dest_path = ''guide/intro/index.html'', abs_dest_path = ''site/fr/guide/intro/index.html''\<rparr>
   = [\<lparr>page = None, src_path = ''guide/intro.fr.md'', abs_src_path = ''docs/guide/intro.fr.md'',
       dest_path = ''guide/intro/index.html'', abs_dest_path = ''site/fr/guide/intro/index.html''\<rparr>]
   \<and> append_all
     [\<lparr>page = None, src_path = ''guide/intro.fr.md'', abs_src_path = ''docs/guide/intro.fr.md'',
       dest_path = ''guide/intro/index.html'', abs_dest_path = ''site/fr/guide/intro/index.html''\<rparr>]
     [\<lparr>page = None, src_path = ''index.md'', abs_src_path = ''docs/index.md'',
       dest_path = ''index.html'', abs_dest_path = ''site/fr/index.html''\<rparr>,
      \<lparr>page = None, src_path = ''guide/intro.en.md'', abs_src_path = ''docs/guide/intro.en.md'',
       dest_path = ''guide/intro/index.html'', abs_dest_path = ''site/fr/guide/intro/index.html''\<rparr>]
   = [\<lparr>page = None, src_path = ''guide/intro.fr.md'', abs_src_path = ''docs/guide/intro.fr.md'',
       dest_path = ''guide/intro/index.html'', abs_dest_path = ''site/fr/guide/intro/index.html''\<rparr>,
      \<lparr>page = None, src_path = ''index.md'', abs_src_path = ''docs/index.md'',
       dest_path = ''index.html'', abs_dest_path = ''site/fr/index.html''\<rparr>]"
  using append_first_wins
    [of "\<lparr>page = None, src_path = ''guide/intro.en.md'', abs_src_path = ''docs/guide/intro.en.md'',
          dest_path = ''guide/intro/index.html'',
          abs_dest_path = ''site/fr/guide/intro/index.html''\<rparr>"
        "[\<lparr>page = None, src_path = ''guide/intro.fr.md'', abs_src_path = ''docs/guide/intro.fr.md'',
           dest_path = ''guide/intro/index.html'',
           abs_dest_path = ''site/fr/guide/intro/index.html''\<rparr>]"
        "[\<lparr>page = None, src_path = ''index.md'', abs_src_path = ''docs/index.md'',
           dest_path = ''index.html'', abs_dest_path = ''site/fr/index.html''\<rparr>,
          \<lparr>page = None, src_path = ''guide/intro.en.md'', abs_src_path = ''docs/guide/intro.en.md'',
           dest_path = ''guide/intro/index.html'',
           abs_dest_path = ''site/fr/guide/intro/index.html''\<rparr>]"]
  by simp

section \<open>Containment and lookup in the collection\<close>

lemma dict_set_keys:
  "map fst (dict_set d k v) = (if k \<in> set (map fst d) then map fst d else map fst d @ [k])"
  by (induction d) (auto simp: dict_set_def)

lemma src_paths_fold_keys:
  "set (map fst (fold (\<lambda>f d. dict_set d (src_path f) f) files d0))
     = set (map fst d0) \<union> set (map src_path files)"
proof (induction files arbitrary: d0)
  case Nil
  show ?case by simp
next
  case (Cons f files)
  have "set (map fst (dict_set d0 (src_path f) f)) = insert (src_path f) (set (map fst d0))"
    unfolding dict_set_keys by auto
  then show ?case unfolding fold_simps Cons.IH by auto
qed

lemma src_paths_keys: "set (map fst (src_paths files)) = set (map src_path files)"
  unfolding src_paths_def src_paths_fold_keys by simp

lemma src_paths_fold_distinct:
  "distinct (map fst d0 @ map src_path files) \<Longrightarrow>
   fold (\<lambda>f d. dict_set d (src_path f) f) files d0 = d0 @ map (\<lambda>f. (src_path f, f)) files"
proof (induction files arbitrary: d0)
  case Nil
  show ?case by simp
next
  case (Cons f files)
  have new: "src_path f \<notin> set (map fst d0)" using Cons.prems by auto
  then have d: "dict_set d0 (src_path f) f = d0 @ [(src_path f, f)]"
    by (simp add: dict_set_def)
  have "distinct (map fst (d0 @ [(src_path f, f)]) @ map src_path files)"
    using Cons.prems by auto
  then show ?case unfolding fold_simps d using Cons.IH[of "d0 @ [(src_path f, f)]"] by simp
qed

lemma src_paths_distinct:
  "distinct (map src_path files) \<Longrightarrow> src_paths files = map (\<lambda>f. (src_path f, f)) files"
  unfolding src_paths_def using src_paths_fold_distinct[of "[]" files] by simp

lemma expected_src_paths_ok:
  assumes "path_name (Path p) \<noteq> []"
    and "locale \<noteq> []" and "sep \<notin> set locale"
    and "default_locale \<noteq> []" and "sep \<notin> set default_locale"
  shows "expected_src_paths locale default_locale p
         = Inr [with_locale p locale, with_locale p default_locale, Path p]"
proof -
  have nosep: "sep \<notin> set (name_suffix (path_name (Path p)))"
    using Path_name[OF assms(1)] name_suffix_subset[of "path_name (Path p)"] by auto
  have ok: "with_suffix (Path p) (''.'' @ l @ path_suffix (Path p)) = Inr (with_locale p l)"
    if "l \<noteq> []" "sep \<notin> set l" for l
  proof -
    have "sep \<notin> set (''.'' @ l @ path_suffix (Path p))"
      using that(2) nosep by (simp add: path_suffix_def sep_def)
    moreover have "''.'' @ l @ path_suffix (Path p) = []
        \<or> (hd (''.'' @ l @ path_suffix (Path p)) = CHR ''.''
            \<and> ''.'' @ l @ path_suffix (Path p) \<noteq> ''.'')"
      using that(1) by simp
    ultimately show ?thesis
      using with_suffix_ok[OF assms(1), of "''.'' @ l @ path_suffix (Path p)"]
      by (simp add: with_locale_def path_suffix_def)
  qed
  show ?thesis
    unfolding expected_src_paths_def Let_def ok[OF assms(2,3)] ok[OF assms(4,5)] by simp
qed

lemma case_filter_find:
  "(case filter Q ks of [] \<Rightarrow> r | s # x \<Rightarrow> g s) = (case find Q ks of None \<Rightarrow> r | Some s \<Rightarrow> g s)"
  by (induction ks) auto

lemma first_key_lookup:
  "distinct (map src_path files) \<Longrightarrow>
   (case filter Q (map src_path files) of
      [] \<Rightarrow> None
    | s # _ \<Rightarrow> map_of (map (\<lambda>f. (src_path f, f)) files) s)
   = find (\<lambda>f. Q (src_path f)) files"
proof (induction files)
  case Nil
  show ?case by simp
next
  case (Cons f files)
  show ?case
  proof (cases "Q (src_path f)")
    case True
    then show ?thesis by simp
  next
    case False
    have "map_of (map (\<lambda>f. (src_path f, f)) (f # files)) s
          = map_of (map (\<lambda>f. (src_path f, f)) files) s"
      if "s \<in> set (filter Q (map src_path files))" for s
    proof -
      have "s \<in> set (map src_path files)" using that by simp
      moreover have "src_path f \<notin> set (map src_path files)" using Cons.prems by simp
      ultimately have "s \<noteq> src_path f" by blast
      then show ?thesis by simp
    qed
    then have "(case filter Q (map src_path files) of
                  [] \<Rightarrow> None
                | s # _ \<Rightarrow> map_of (map (\<lambda>f. (src_path f, f)) (f # files)) s)
             = (case filter Q (map src_path files) of
                  [] \<Rightarrow> None
                | s # _ \<Rightarrow> map_of (map (\<lambda>f. (src_path f, f)) files) s)"
      by (cases "filter Q (map src_path files)") simp_all
    then show ?thesis using False Cons by simp
  qed
qed

text \<open>
  What the two methods compute. Let the queried path have a file name and let the two
  locales be non-empty and free of separators. The three forms are the path with
  \<open>.<locale>\<close> before its extension, the path with \<open>.<default locale>\<close> there, and the
  path itself. \<open>__contains__\<close> holds exactly when the source path of some member is, as a
  path, one of the three forms. \<open>get_file_from_path\<close> takes the first source path of the
  collection, in the order of the collection, that is one of the three forms, and
  returns the member registered under its normalised spelling; for members with
  distinct, normalised source paths that is the first member of the collection whose
  source path is one of the forms.
\<close>

lemma contains_and_lookup:
  fixes files :: "('a File_scheme) list"
  assumes "path_name (Path p) \<noteq> []"
    and "locale \<noteq> []" and "sep \<notin> set locale"
    and "default_locale \<noteq> []" and "sep \<notin> set default_locale"
  defines "forms \<equiv> [with_locale p locale, with_locale p default_locale, Path p]"
  shows "expected_src_paths locale default_locale p = Inr forms
    \<and> contains locale default_locale files p
        = Inr (\<exists>f \<in> set files. Path (src_path f) \<in> set forms)
    \<and> get_file_from_path locale default_locale files p
        = Inr (case find (\<lambda>s. Path s \<in> set forms) (map fst (src_paths files)) of
                 None \<Rightarrow> None
               | Some s \<Rightarrow> dict_get (src_paths files) (normpath s))
    \<and> (distinct (map src_path files) \<and> (\<forall>f \<in> set files. normpath (src_path f) = src_path f)
         \<longrightarrow> get_file_from_path locale default_locale files p
               = Inr (find (\<lambda>f. Path (src_path f) \<in> set forms) files))"
proof (intro conjI impI)
  show e: "expected_src_paths locale default_locale p = Inr forms"
    unfolding forms_def by (rule expected_src_paths_ok[OF assms(1-5)])
  have named: "parts q \<noteq> []" if "q \<in> set forms" for q
    using that assms(1) by (auto simp: forms_def with_locale_def path_name_def)
  have nonempty: "s \<noteq> []" if "Path s \<in> set forms" for s
    using named[OF that] by (auto simp: Path_def)
  have "list_ex (\<lambda>s. s \<noteq> []) (filter (\<lambda>s. Path s \<in> set forms) (map fst (src_paths files)))
        \<longleftrightarrow> (\<exists>s \<in> set (map fst (src_paths files)). Path s \<in> set forms)"
    using nonempty by (auto simp: list_ex_iff)
  also have "\<dots> \<longleftrightarrow> (\<exists>f \<in> set files. Path (src_path f) \<in> set forms)"
    unfolding src_paths_keys by auto
  finally show "contains locale default_locale files p
        = Inr (\<exists>f \<in> set files. Path (src_path f) \<in> set forms)"
    unfolding contains_def e by simp
  show g: "get_file_from_path locale default_locale files p
        = Inr (case find (\<lambda>s. Path s \<in> set forms) (map fst (src_paths files)) of
                 None \<Rightarrow> None
               | Some s \<Rightarrow> dict_get (src_paths files) (normpath s))"
    unfolding get_file_from_path_def e sum.case case_filter_find
    by (simp split: option.splits)
  assume h: "distinct (map src_path files) \<and> (\<forall>f \<in> set files. normpath (src_path f) = src_path f)"
  then have d: "distinct (map src_path files)" by simp
  have sp: "src_paths files = map (\<lambda>f. (src_path f, f)) files"
    using d by (rule src_paths_distinct)
  have keys: "map fst (map (\<lambda>f. (src_path f, f)) files) = map src_path files"
    by (simp add: comp_def)
  have norm: "normpath s = s" if "find (\<lambda>s. Path s \<in> set forms) (map src_path files) = Some s" for s
  proof -
    have "s \<in> set (map src_path files)" using that by (auto simp: find_Some_iff)
    then show ?thesis using h by auto
  qed
  have "(case find (\<lambda>s. Path s \<in> set forms) (map src_path files) of
           None \<Rightarrow> None
         | Some s \<Rightarrow> dict_get (map (\<lambda>f. (src_path f, f)) files) (normpath s))
        = (case find (\<lambda>s. Path s \<in> set forms) (map src_path files) of
           None \<Rightarrow> None
         | Some s \<Rightarrow> map_of (map (\<lambda>f. (src_path f, f)) files) s)"
    using norm by (auto simp: dict_get_def split: option.splits)
  also have "\<dots> = (case filter (\<lambda>s. Path s \<in> set forms) (map src_path files) of
           [] \<Rightarrow> None
         | s # _ \<Rightarrow> map_of (map (\<lambda>f. (src_path f, f)) files) s)"
    unfolding case_filter_find by (rule refl)
  also have "\<dots> = find (\<lambda>f. Path (src_path f) \<in> set forms) files"
    using d by (rule first_key_lookup)
  finally show "get_file_from_path locale default_locale files p
               = Inr (find (\<lambda>f. Path (src_path f) \<in> set forms) files)"
    unfolding g sp keys by simp
qed

lemma contains_and_lookup_example:
  "contains ''fr'' ''en''
     [example_file ''index.md'' ''index.html'',
      example_file ''guide/intro.fr.md'' ''guide/intro/index.html'']
     ''guide/intro.md'' = Inr True
   \<and> contains ''fr'' ''en''
     [example_file ''index.md'' ''index.html'',
      example_file ''guide/intro.fr.md'' ''guide/intro/index.html'']
     ''guide/setup.md'' = Inr False
   \<and> get_file_from_path ''fr'' ''en''
     [example_file ''index.md'' ''index.html'',
      example_file ''guide/intro.fr.md'' ''guide/intro/index.html'']
     ''guide/intro.md'' = Inr (Some (example_file ''guide/intro.fr.md'' ''guide/intro/index.html''))"
proof -
  let ?files = "[example_file ''index.md'' ''index.html'',
                 example_file ''guide/intro.fr.md'' ''guide/intro/index.html'']"
  have n1: "path_name (Path ''guide/intro.md'') \<noteq> []"
    and n2: "path_name (Path ''guide/setup.md'') \<noteq> []"
    by code_simp+
  have l: "''fr'' \<noteq> []" "sep \<notin> set ''fr''" "''en'' \<noteq> []" "sep \<notin> set ''en''"
    by (simp_all add: sep_def)
  have d: "distinct (map src_path ?files)
           \<and> (\<forall>f \<in> set ?files. normpath (src_path f) = src_path f)"
    by code_simp
  have c1: "(\<exists>f \<in> set ?files.
               Path (src_path f) \<in> set [with_locale ''guide/intro.md'' ''fr'',
                                        with_locale ''guide/intro.md'' ''en'',
                                        Path ''guide/intro.md'']) = True"
    by code_simp
  have c2: "(\<exists>f \<in> set ?files.
               Path (src_path f) \<in> set [with_locale ''guide/setup.md'' ''fr'',
                                        with_locale ''guide/setup.md'' ''en'',
                                        Path ''guide/setup.md'']) = False"
    by code_simp
  have g: "find (\<lambda>f. Path (src_path f) \<in> set [with_locale ''guide/intro.md'' ''fr'',
                                               with_locale ''guide/intro.md'' ''en'',
                                               Path ''guide/intro.md'']) ?files
           = Some (example_file ''guide/intro.fr.md'' ''guide/intro/index.html'')"
    by code_simp
  note t1 = contains_and_lookup[OF n1 l, of ?files]
  note t2 = contains_and_lookup[OF n2 l, of ?files]
  have a: "contains ''fr'' ''en'' ?files ''guide/intro.md'' = Inr True"
    using t1[THEN conjunct2, THEN conjunct1] unfolding c1 .
  have b: "contains ''fr'' ''en'' ?files ''guide/setup.md'' = Inr False"
    using t2[THEN conjunct2, THEN conjunct1] unfolding c2 .
  have c: "get_file_from_path ''fr'' ''en'' ?files ''guide/intro.md''
           = Inr (Some (example_file ''guide/intro.fr.md'' ''guide/intro/index.html''))"
    using t1[THEN conjunct2, THEN conjunct2, THEN conjunct2, THEN mp, OF d] unfolding g .
  show ?thesis using a b c by (intro conjI)
qed

text \<open>
  C4. The class is there, its documentation says, to check for a possible
  \<open>.<locale>.<suffix>\<close> file to use instead of the file a link names, and \<open>__init__\<close>
  tries the localized forms before the plain one. \<open>get_file_from_path\<close> does not: it
  follows the order of the collection, not the order of the forms. The collection holds
  the file of \<open>guide/intro.md\<close> and, after it, the file of \<open>guide/intro.fr.md\<close>. For the
  locale \<open>fr\<close> the first form of the query \<open>guide/intro.md\<close> is \<open>guide/intro.fr.md\<close>, the
  source path of the second member, yet the lookup returns the first member, matched by
  the third form.
\<close>

theorem lookup_order_counterexample:
  "expected_src_paths ''fr'' ''en'' ''guide/intro.md''
     = Inr [Path ''guide/intro.fr.md'', Path ''guide/intro.en.md'', Path ''guide/intro.md'']
   \<and> src_path (example_file ''guide/intro.fr.md'' ''guide/intro.fr/index.html'')
     = ''guide/intro.fr.md''
   \<and> get_file_from_path ''fr'' ''en''
       [example_file ''guide/intro.md'' ''guide/intro/index.html'',
        example_file ''guide/intro.fr.md'' ''guide/intro.fr/index.html'']
       ''guide/intro.md''
     = Inr (Some (example_file ''guide/intro.md'' ''guide/intro/index.html''))
   \<and> get_file_from_path ''fr'' ''en''
       [example_file ''guide/intro.md'' ''guide/intro/index.html'',
        example_file ''guide/intro.fr.md'' ''guide/intro.fr/index.html'']
       ''guide/intro.md''
     \<noteq> Inr (Some (example_file ''guide/intro.fr.md'' ''guide/intro.fr/index.html''))"
  by code_simp

text \<open>
  The same happens in a collection of files that \<open>__init__\<close> returned. The walker finds
  \<open>a.fr.png\<close> and \<open>a.fr.zu.png\<close>; \<open>fr\<close> is detected in both names. For the locale \<open>zu\<close> the
  first file has no candidate on disk and keeps its paths; the second is its own first
  candidate and goes to \<open>a.png\<close>. Both are members, and a link to \<open>a.fr.png\<close> gets the
  first one although its translation \<open>a.fr.zu.png\<close>, the first form, is the second.
\<close>

lemma lookup_order_of_resolved_files:
  "map src_path resolved_assets = [''a.fr.png'', ''a.fr.zu.png'']
   \<and> map dest_path resolved_assets = [''a.fr.png'', ''a.png'']
   \<and> map locale_suffix resolved_assets = [None, Some ''zu'']
   \<and> expected_src_paths ''zu'' ''en'' ''a.fr.png''
     = Inr [Path ''a.fr.zu.png'', Path ''a.fr.en.png'', Path ''a.fr.png'']
   \<and> get_file_from_path ''zu'' ''en'' resolved_assets ''a.fr.png''
     = Inr (Some (hd resolved_assets))"
  by code_simp

section \<open>Detection of a locale suffix\<close>

text \<open>
  C5. A locale is detected exactly when, for some language of the configured list (the
  requested and the default locale play no part), both \<open>.<language>\<close> and the
  extension are among the suffixes of the name; the language returned is the first of
  the list that passes the test. For a path with a file name the logical stem is then
  the path with its last suffix removed twice, and with its last suffix removed once
  when no locale is detected. (A path without a file name has no stem: \<open>with_suffix\<close>
  raises \<open>ValueError\<close>.)
\<close>

theorem locale_suffix_detection:
  "(is_localized_for langs s \<noteq> None \<longleftrightarrow>
      (\<exists>language \<in> set langs.
         {''.'' @ language, path_suffix (Path s)} \<subseteq> set (path_suffixes (Path s))))
   \<and> is_localized_for langs s =
       find (\<lambda>language. {''.'' @ language, suffix s} \<subseteq> set (path_suffixes (Path s))) langs
   \<and> (path_name (Path s) \<noteq> [] \<longrightarrow>
         non_i18n_src_path langs s =
           Inr (if is_localized_for langs s \<noteq> None
                then without_suffix (without_suffix (Path s))
                else without_suffix (Path s)))
   \<and> (path_name (Path s) = [] \<longrightarrow> non_i18n_src_path langs s = Inl ValueError)"
proof (intro conjI impI)
  show "is_localized_for langs s \<noteq> None \<longleftrightarrow>
          (\<exists>language \<in> set langs.
             {''.'' @ language, path_suffix (Path s)} \<subseteq> set (path_suffixes (Path s)))"
    unfolding is_localized_for_None by (rule not_not)
  show "is_localized_for langs s =
          find (\<lambda>language. {''.'' @ language, suffix s} \<subseteq> set (path_suffixes (Path s))) langs"
    by (simp add: is_localized_for_def suffix_def)
  show "non_i18n_src_path langs s =
          Inr (if is_localized_for langs s \<noteq> None
               then without_suffix (without_suffix (Path s))
               else without_suffix (Path s))"
    if "path_name (Path s) \<noteq> []"
    by (rule non_i18n_src_path_ok[OF that])
  show "non_i18n_src_path langs s = Inl ValueError" if "path_name (Path s) = []"
    by (rule non_i18n_src_path_no_name[OF that])
qed

theorem locale_suffix_detection_witness:
  "is_localized_for [''en'', ''fr'', ''de''] ''guide/intro.de.md'' = Some ''de''
   \<and> non_i18n_src_path [''en'', ''fr'', ''de''] ''guide/intro.de.md''
       = Inr \<lparr>root = [], parts = [''guide'', ''intro'']\<rparr>
   \<and> is_localized_for [''en'', ''fr'', ''de''] ''guide/archive.tar.gz'' = None
   \<and> non_i18n_src_path [''en'', ''fr'', ''de''] ''guide/archive.tar.gz''
       = Inr \<lparr>root = [], parts = [''guide'', ''archive.tar'']\<rparr>"
proof -
  have h1: "path_name (Path ''guide/intro.de.md'') \<noteq> []" by code_simp
  have h2: "path_name (Path ''guide/archive.tar.gz'') \<noteq> []" by code_simp
  have e1: "is_localized_for [''en'', ''fr'', ''de''] ''guide/intro.de.md'' = Some ''de''"
    by code_simp
  have e2: "is_localized_for [''en'', ''fr'', ''de''] ''guide/archive.tar.gz'' = None"
    by code_simp
  have e3: "without_suffix (without_suffix (Path ''guide/intro.de.md''))
            = \<lparr>root = [], parts = [''guide'', ''intro'']\<rparr>"
    by code_simp
  have e4: "without_suffix (Path ''guide/archive.tar.gz'')
            = \<lparr>root = [], parts = [''guide'', ''archive.tar'']\<rparr>"
    by code_simp
  show ?thesis
    using locale_suffix_detection[of "[''en'', ''fr'', ''de'']" "''guide/intro.de.md''"]
      locale_suffix_detection[of "[''en'', ''fr'', ''de'']" "''guide/archive.tar.gz''"] h1 h2
    by (simp add: e1 e2 e3 e4)
qed

section \<open>The destination of a resolved file\<close>

lemma first_existing_expected_paths_Some:
  "first_existing exists (expected_paths stem ext language default_language docs)
     = Inr (Some (l, p)) \<Longrightarrow> \<exists>mid. p = candidate docs stem mid ext"
  by (auto simp: expected_paths_candidates split: sum.splits if_splits)

lemma first_existing_expected_paths_None:
  "first_existing exists (expected_paths stem ext language default_language docs)
     = Inr None \<Longrightarrow>
   exists (path_str (candidate docs stem (''.'' @ language) ext)) = Inr False
   \<and> exists (path_str (candidate docs stem (''.'' @ default_language) ext)) = Inr False
   \<and> exists (path_str (candidate docs stem [] ext)) = Inr False"
  by (auto simp: expected_paths_candidates split: sum.splits if_splits)

lemma init_matched_dest:
  assumes wp: "walker_path (src_path file_from)"
    and f: "first_existing exists
              (expected_paths (logical_stem langs (src_path file_from)) (suffix (src_path file_from))
                 language default_language docs)
            = Inr (Some (l, candidate docs (logical_stem langs (src_path file_from)) mid
                              (suffix (src_path file_from))))"
  defines "fname \<equiv> name_stem (stem_name langs (src_path file_from))
                      @ (if l \<noteq> None \<and> l \<noteq> Some [] then suffix (src_path file_from)
                         else concat (path_suffixes (Path (src_path file_from))))"
  shows "\<exists>r. I18nFile_init exists is_page file_from language langs default_language docs site udu
               = Inr r
           \<and> name r = stem_name langs (src_path file_from)
           \<and> locale_suffix r = l
           \<and> dest_name r = Some \<lparr>root = [], parts = [fname]\<rparr>
           \<and> dest_path r =
               (if is_page (src_path r)
                then (if udu = Some False \<or> name r = ''index''
                      then path_under (parent_dir (src_path r)) (name r @ ''.html'')
                      else path_under (path_under (parent_dir (src_path r)) (name r)) ''index.html'')
                else path_under (parent_dir (src_path r)) fname)"
proof -
  let ?s = "src_path file_from"
  let ?sp = "Path (path_str (logical_stem langs ?s) @ mid @ suffix ?s)"
  let ?nm = "stem_name langs ?s"
  have r: "root ?sp = []"
    using walker_path_stem(2,3)[OF wp, of langs] by (intro Path_relative) auto
  have ps: "\<forall>x \<in> set (parts ?sp). x \<noteq> [] \<and> sep \<notin> set x"
    using Path_parts by blast
  have nm: "?nm \<noteq> []" "sep \<notin> set ?nm"
    using walker_path_stem(4,5)[OF wp, of langs] by (auto simp: stem_name_def sep_def)
  have st: "name_stem ?nm \<noteq> []" using nm(1) by (rule name_stem_nonempty)
  have "sep \<notin> set (name_stem ?nm)" using nm(2) name_stem_subset by blast
  then have "hd (name_stem ?nm) \<noteq> sep" using st by (metis hd_in_set)
  then have fn: "fname \<noteq> []" "hd fname \<noteq> sep" using st by (simp_all add: fname_def)
  show ?thesis
    unfolding init_matched[OF wp f] fname_def[symmetric]
    using get_dest_path_under[OF r ps nm fn, of is_page udu] by simp
qed

text \<open>
  C6, as amended. Take a walker path (relative, with a file name that does not start with
  a dot); the constructor returns a file unless a probe raises, and then it raises the
  same. When the probes find none of the three candidates, no destination file name is
  assigned and the destination path is the walker's. When they find a candidate, a
  destination file name is assigned, and provided the name has no suffix of its own it
  is the name followed by the extension when the candidate that matched carries a
  non-empty locale, and the name followed by the whole chain of suffixes of the initial
  path when the candidate without a locale matched. The destination path of a
  documentation page is \<open>parent/<name>.html\<close> when directory URLs are switched off
  (\<open>False\<close>) or the name is \<open>index\<close>, and \<open>parent/<name>/index.html\<close> otherwise; that of
  any other file is \<open>parent/<destination file name>\<close>; \<open>parent\<close> is the directory of the
  source path.
\<close>

theorem destination_of_resolved_file:
  fixes exists :: file_system and is_page :: "string \<Rightarrow> bool" and file_from :: File
    and language default_language docs site :: string and langs :: "string list"
    and udu :: "bool option" and e :: error and lp :: "string option \<times> path"
  assumes "walker_path (src_path file_from)"
  defines "stem \<equiv> logical_stem langs (src_path file_from)"
    and "ext \<equiv> suffix (src_path file_from)"
    and "chain \<equiv> concat (path_suffixes (Path (src_path file_from)))"
  defines "found \<equiv> first_existing exists (expected_paths stem ext language default_language docs)"
  defines "res \<equiv> I18nFile_init exists is_page file_from language langs default_language docs site udu"
  shows "(found = Inl e \<longrightarrow> res = Inl e)
    \<and> (found = Inr None \<longrightarrow>
         (\<exists>r. res = Inr r \<and> dest_name r = None \<and> dest_path r = dest_path file_from))
    \<and> (found = Inr (Some lp) \<longrightarrow>
         (\<exists>r fname. res = Inr r
            \<and> dest_name r = Some \<lparr>root = [], parts = [fname]\<rparr>
            \<and> (name_suffix (name r) = [] \<longrightarrow>
                  fname = name r @ (if locale_suffix r \<noteq> None \<and> locale_suffix r \<noteq> Some []
                                    then ext else chain))
            \<and> dest_path r =
                (if is_page (src_path r)
                 then (if udu = Some False \<or> name r = ''index''
                       then path_under (parent_dir (src_path r)) (name r @ ''.html'')
                       else path_under (path_under (parent_dir (src_path r)) (name r)) ''index.html'')
                 else path_under (parent_dir (src_path r)) fname)))"
proof (intro conjI impI)
  have nm: "path_name (Path (src_path file_from)) \<noteq> []"
    using assms(1) by (simp add: walker_path_def)
  {
    assume "found = Inl e"
    then show "res = Inl e"
      unfolding res_def found_def stem_def ext_def by (rule init_probe_raises[OF nm])
  }
  {
    assume none: "found = Inr None"
    note ne = first_existing_expected_paths_None[OF none[unfolded found_def stem_def ext_def]]
    show "\<exists>r. res = Inr r \<and> dest_name r = None \<and> dest_path r = dest_path file_from"
      unfolding res_def init_fallback[OF nm ne[THEN conjunct1] ne[THEN conjunct2, THEN conjunct1]
          ne[THEN conjunct2, THEN conjunct2]]
      by simp
  }
  {
    assume some: "found = Inr (Some lp)"
    obtain l p where lp: "lp = (l, p)" by (cases lp)
    obtain mid where p: "p = candidate docs stem mid ext"
      using first_existing_expected_paths_Some[OF some[unfolded found_def lp]] by blast
    have f: "first_existing exists
                (expected_paths (logical_stem langs (src_path file_from)) (suffix (src_path file_from))
                   language default_language docs)
              = Inr (Some (l, candidate docs (logical_stem langs (src_path file_from)) mid
                                (suffix (src_path file_from))))"
      using some unfolding found_def lp p stem_def ext_def .
    obtain r where r: "res = Inr r" "name r = stem_name langs (src_path file_from)"
      "locale_suffix r = l"
      "dest_name r = Some \<lparr>root = [], parts = [name_stem (stem_name langs (src_path file_from))
                        @ (if l \<noteq> None \<and> l \<noteq> Some [] then suffix (src_path file_from)
                           else concat (path_suffixes (Path (src_path file_from))))]\<rparr>"
      "dest_path r =
                 (if is_page (src_path r)
                  then (if udu = Some False \<or> name r = ''index''
                        then path_under (parent_dir (src_path r)) (name r @ ''.html'')
                        else path_under (path_under (parent_dir (src_path r)) (name r)) ''index.html'')
                  else path_under (parent_dir (src_path r))
                         (name_stem (stem_name langs (src_path file_from))
                        @ (if l \<noteq> None \<and> l \<noteq> Some [] then suffix (src_path file_from)
                           else concat (path_suffixes (Path (src_path file_from))))))"
      using init_matched_dest[OF assms(1) f, of is_page site udu] unfolding res_def by blast
    have plain: "name_suffix (name r) = [] \<Longrightarrow> name_stem (name r) = name r"
      using name_stem_suffix[of "name r"] by simp
    show "\<exists>r fname. res = Inr r
            \<and> dest_name r = Some \<lparr>root = [], parts = [fname]\<rparr>
            \<and> (name_suffix (name r) = [] \<longrightarrow>
                  fname = name r @ (if locale_suffix r \<noteq> None \<and> locale_suffix r \<noteq> Some []
                                    then ext else chain))
            \<and> dest_path r =
                (if is_page (src_path r)
                 then (if udu = Some False \<or> name r = ''index''
                       then path_under (parent_dir (src_path r)) (name r @ ''.html'')
                       else path_under (path_under (parent_dir (src_path r)) (name r)) ''index.html'')
                 else path_under (parent_dir (src_path r)) fname)"
      using r(1,4,5) plain unfolding r(2)[symmetric] r(3)[symmetric] ext_def chain_def
      by (intro exI[of _ r] exI[of _ "name_stem (name r)
                      @ (if locale_suffix r \<noteq> None \<and> locale_suffix r \<noteq> Some []
                         then suffix (src_path file_from)
                         else concat (path_suffixes (Path (src_path file_from))))"]) simp
  }
qed

theorem destination_of_resolved_file_witness:
  "field dest_name (example_init ''img/logo.png'' ''img/logo.png'' (Some True))
     = Some (Some \<lparr>root = [], parts = [''logo.png'']\<rparr>)
   \<and> field dest_path (example_init ''img/logo.png'' ''img/logo.png'' (Some True))
     = Some ''img/logo.png''"
proof -
  have w: "walker_path (src_path (example_file ''img/logo.png'' ''img/logo.png''))"
    by code_simp
  have found: "first_existing example_docs
                 (expected_paths
                    (logical_stem [''en'', ''fr'', ''de'']
                       (src_path (example_file ''img/logo.png'' ''img/logo.png'')))
                    (suffix (src_path (example_file ''img/logo.png'' ''img/logo.png'')))
                    ''fr'' ''en'' ''docs'')
               = Inr (Some (Some ''fr'', Path ''docs/img/logo.fr.png''))"
    by code_simp
  have n: "field name (example_init ''img/logo.png'' ''img/logo.png'' (Some True)) = Some ''logo''"
    and l: "field locale_suffix (example_init ''img/logo.png'' ''img/logo.png'' (Some True))
              = Some (Some ''fr'')"
    and s: "field src_path (example_init ''img/logo.png'' ''img/logo.png'' (Some True))
              = Some ''img/logo.fr.png''"
    by code_simp+
  have ext: "suffix (src_path (example_file ''img/logo.png'' ''img/logo.png'')) = ''.png''"
    and ns: "name_suffix ''logo'' = []"
    and pg: "\<not> example_is_page ''img/logo.fr.png''"
    and pd: "path_under (parent_dir ''img/logo.fr.png'') ''logo.png'' = ''img/logo.png''"
    by code_simp+
  from destination_of_resolved_file[OF w, where exists = example_docs
      and is_page = example_is_page and language = "''fr''" and langs = "[''en'', ''fr'', ''de'']"
      and default_language = "''en''" and docs = "''docs''" and site = "''site''"
      and udu = "Some True" and lp = "(Some ''fr'', Path ''docs/img/logo.fr.png'')",
      THEN conjunct2, THEN conjunct2, THEN mp, OF found]
  obtain r fname where
    r: "example_init ''img/logo.png'' ''img/logo.png'' (Some True) = Inr r"
    and dn: "dest_name r = Some \<lparr>root = [], parts = [fname]\<rparr>"
    and fn: "name_suffix (name r) = [] \<longrightarrow>
               fname = name r @ (if locale_suffix r \<noteq> None \<and> locale_suffix r \<noteq> Some []
                                 then suffix (src_path (example_file ''img/logo.png'' ''img/logo.png''))
                                 else concat (path_suffixes (Path (src_path
                                        (example_file ''img/logo.png'' ''img/logo.png'')))))"
    and dp: "dest_path r =
                (if example_is_page (src_path r)
                 then (if Some True = Some False \<or> name r = ''index''
                       then path_under (parent_dir (src_path r)) (name r @ ''.html'')
                       else path_under (path_under (parent_dir (src_path r)) (name r)) ''index.html'')
                 else path_under (parent_dir (src_path r)) fname)"
    unfolding example_init_def by blast
  have "name r = ''logo''" "locale_suffix r = Some ''fr''" "src_path r = ''img/logo.fr.png''"
    using n l s r by (simp_all add: field_def)
  then have "fname = ''logo.png''" "dest_path r = ''img/logo.png''"
    using fn dp ext ns pg pd by simp_all
  then show ?thesis using r dn by (simp add: field_def)
qed

text \<open>
  C6 as stated fails. The archive \<open>files/archive.tar.gz\<close> is on disk without translation:
  the candidate without a locale matches, the name is \<open>archive.tar\<close> and the chain of
  suffixes is \<open>.tar.gz\<close>, yet the destination file name is \<open>archive.tar.gz\<close>, not the name
  followed by the chain.
\<close>

theorem destination_name_counterexample:
  "field locale_suffix (example_init ''files/archive.tar.gz'' ''files/archive.tar.gz'' (Some True))
     = Some None
   \<and> field name (example_init ''files/archive.tar.gz'' ''files/archive.tar.gz'' (Some True))
     = Some ''archive.tar''
   \<and> concat (path_suffixes (Path ''files/archive.tar.gz'')) = ''.tar.gz''
   \<and> field dest_name (example_init ''files/archive.tar.gz'' ''files/archive.tar.gz'' (Some True))
     = Some (Some \<lparr>root = [], parts = [''archive.tar.gz'']\<rparr>)
   \<and> field dest_name (example_init ''files/archive.tar.gz'' ''files/archive.tar.gz'' (Some True))
     \<noteq> Some (Some \<lparr>root = [], parts = [''archive.tar'' @ ''.tar.gz'']\<rparr>)"
  by code_simp

text \<open>
  With a name that has a suffix of its own, \<open>with_suffix\<close> replaces that suffix: the
  translated script \<open>js/jquery.min.fr.js\<close> of \<open>js/jquery.min.js\<close> goes to \<open>js/jquery.js\<close>.
\<close>

lemma locale_candidate_of_dotted_name:
  "field name (example_init ''js/jquery.min.js'' ''js/jquery.min.js'' (Some True))
     = Some ''jquery.min''
   \<and> field locale_suffix (example_init ''js/jquery.min.js'' ''js/jquery.min.js'' (Some True))
     = Some (Some ''fr'')
   \<and> field dest_path (example_init ''js/jquery.min.js'' ''js/jquery.min.js'' (Some True))
     = Some ''js/jquery.js''"
  by code_simp

section \<open>The URL of a resolved file\<close>

text \<open>
  C7. The URL of a file that \<open>__init__\<close> returned for a non-empty requested locale is
  the URL the specification describes, computed from the destination path of that file:
  separators become \<open>/\<close>; with directory URLs switched on and the file name
  \<open>index.html\<close> the URL is the parent directory and a slash, or \<open>.\<close> at the root;
  the locale and a slash go in front, the bare \<open>.\<close> becoming the locale and one slash;
  the result is percent-encoded. So the root document has the URL of
  \<open><locale>/\<close>, with neither a second slash nor an \<open>index\<close> segment.
\<close>

theorem url_of_resolved_file:
  assumes "I18nFile_init exists is_page file_from language langs default_language docs site udu
             = Inr r"
    and "language \<noteq> []"
  shows "url r = spec_url (dest_path r) language (udu = Some True)
    \<and> (udu = Some True \<and> dest_path r = ''index.html'' \<longrightarrow> url r = urlquote (language @ ''/''))"
proof -
  have u: "url r = get_url (dest_path r) language udu"
    using init_Inr_url[OF assms(1)] by simp
  have "url r = spec_url (dest_path r) language (udu = Some True)"
    unfolding u by (rule get_url_spec[OF assms(2)])
  moreover have "spec_url ''index.html'' language True = urlquote (language @ ''/'')"
    by (simp add: spec_url_def replace_def sep_def Let_def)
  ultimately show ?thesis by simp
qed

theorem url_of_resolved_file_witness:
  "field dest_path (example_init ''index.md'' ''index.html'' (Some True)) = Some ''index.html''
   \<and> field url (example_init ''index.md'' ''index.html'' (Some True)) = Some ''fr/''
   \<and> field dest_path (example_init ''guide/intro.md'' ''guide/intro/index.html'' (Some True))
     = Some ''guide/intro/index.html''
   \<and> field url (example_init ''guide/intro.md'' ''guide/intro/index.html'' (Some True))
     = Some ''fr/guide/intro/''"
proof -
  have l: "''fr'' \<noteq> []" by simp
  have d1: "field dest_path (example_init ''index.md'' ''index.html'' (Some True))
              = Some ''index.html''"
    by code_simp
  then obtain r1 where r1: "example_init ''index.md'' ''index.html'' (Some True) = Inr r1"
    and p1: "dest_path r1 = ''index.html''"
    by (cases "example_init ''index.md'' ''index.html'' (Some True)") (simp_all add: field_def)
  have d2: "field dest_path (example_init ''guide/intro.md'' ''guide/intro/index.html'' (Some True))
              = Some ''guide/intro/index.html''"
    by code_simp
  then obtain r2 where
    r2: "example_init ''guide/intro.md'' ''guide/intro/index.html'' (Some True) = Inr r2"
    and p2: "dest_path r2 = ''guide/intro/index.html''"
    by (cases "example_init ''guide/intro.md'' ''guide/intro/index.html'' (Some True)")
      (simp_all add: field_def)
  have q: "urlquote (''fr'' @ ''/'') = ''fr/''" by code_simp
  have s2: "spec_url ''guide/intro/index.html'' ''fr'' (Some True = Some True) = ''fr/guide/intro/''"
    by code_simp
  have "url r1 = ''fr/''"
    using url_of_resolved_file[OF r1[unfolded example_init_def] l] p1 q by auto
  moreover have "url r2 = ''fr/guide/intro/''"
    using url_of_resolved_file[OF r2[unfolded example_init_def] l] p2 s2 by auto
  ultimately show ?thesis using r1 r2 p1 p2 by (simp add: field_def)
qed

section \<open>Validation of locale codes\<close>

lemma re_match_seq_Range2:
  "re_match_seq (Range lo hi 2 # items) b s =
     (case s of
        x # y # rest \<Rightarrow>
          (of_char lo :: nat) \<le> of_char x \<and> (of_char x :: nat) \<le> of_char hi
          \<and> (of_char lo :: nat) \<le> of_char y \<and> (of_char y :: nat) \<le> of_char hi
          \<and> re_match_seq items False rest
      | _ \<Rightarrow> False)"
  unfolding numeral_2_eq_2 by (simp split: list.splits)

lemma re_match_RE_LOCALE:
  "re_match RE_LOCALE s \<longleftrightarrow> locale_code s \<or> (\<exists>t. s = t @ [CHR 0x0A] \<and> locale_code t)"
proof -
  have "re_match RE_LOCALE s \<longleftrightarrow>
          locale_code s \<or> (s \<noteq> [] \<and> last s = CHR 0x0A \<and> locale_code (butlast s))"
    by (auto simp: RE_LOCALE_def re_match_def locale_code_def ascii_lower_def ascii_upper_def
          re_match_seq_Range2 split: list.splits)
  also have "\<dots> \<longleftrightarrow> locale_code s \<or> (\<exists>t. s = t @ [CHR 0x0A] \<and> locale_code t)"
    by (metis butlast_snoc last_snoc snoc_eq_iff_butlast)
  finally show ?thesis .
qed

lemma validate_locale_ok:
  "validate_locale k = Inr () \<longleftrightarrow> (\<exists>s. k = PyStr s \<and> re_match RE_LOCALE s)"
  by (cases k) (simp_all add: validate_locale_def)

lemma validate_keys_first_error:
  "validate_keys kvs =
     (case find (\<lambda>k. validate_locale k \<noteq> Inr ()) (map fst kvs) of
        None \<Rightarrow> Inr ()
      | Some k \<Rightarrow> validate_locale k)"
proof (induction kvs)
  case Nil
  show ?case by simp
next
  case (Cons kv kvs)
  obtain k v where kv: "kv = (k, v)" by (cases kv)
  show ?case
  proof (cases "validate_locale k")
    case (Inl e)
    then show ?thesis by (simp add: kv)
  next
    case (Inr u)
    then show ?thesis using Cons.IH by (simp add: kv)
  qed
qed

lemma validate_keys_ok:
  "validate_keys kvs = Inr () \<longleftrightarrow> (\<forall>k \<in> set (map fst kvs). validate_locale k = Inr ())"
proof (induction kvs)
  case Nil
  show ?case by simp
next
  case (Cons kv kvs)
  obtain k v where kv: "kv = (k, v)" by (cases kv)
  show ?case using Cons.IH by (cases "validate_locale k") (simp_all add: kv)
qed

lemma validate_locale_message_names_value:
  "\<exists>pre post. validate_locale_message s = pre @ [CHR 0x27] @ s @ [CHR 0x27] @ post"
  unfolding validate_locale_message_def by (metis append.assoc)

text \<open>
  C8. Let the type check of the base class pass the value on. A string is returned when
  it matches \<open>RE_LOCALE\<close> and is refused otherwise with a \<open>ValidationError\<close> whose message
  quotes the string. For a dictionary the same check runs on the keys, in order, and on
  nothing else: the dictionary is returned exactly when every key is a string that
  matches, and otherwise the call fails as the check of the first failing key does. A
  value of any other shape is returned as it is. \<open>RE_LOCALE\<close> matches the strings of the
  two forms \<open>en\<close> and \<open>en_US\<close>, and, since \<open>$\<close> also matches before a final newline, such a
  string followed by one newline.
\<close>

theorem run_validation_locale:
  assumes "super_run_validation v = Inr v"
  shows "(\<forall>s. v = PyStr s \<longrightarrow>
            run_validation super_run_validation v =
              (if re_match RE_LOCALE s then Inr v
               else Inl (ValidationError (validate_locale_message s)))
            \<and> (run_validation super_run_validation v = Inr v \<longleftrightarrow> re_match RE_LOCALE s)
            \<and> (\<exists>pre post. validate_locale_message s = pre @ [CHR 0x27] @ s @ [CHR 0x27] @ post)
            \<and> (re_match RE_LOCALE s \<longleftrightarrow>
                 locale_code s \<or> (\<exists>t. s = t @ [CHR 0x0A] \<and> locale_code t)))
    \<and> (\<forall>kvs. v = PyDict kvs \<longrightarrow>
            (run_validation super_run_validation v = Inr v \<longleftrightarrow>
               (\<forall>k \<in> set (map fst kvs). \<exists>s. k = PyStr s \<and> re_match RE_LOCALE s))
            \<and> run_validation super_run_validation v =
                (case find (\<lambda>k. validate_locale k \<noteq> Inr ()) (map fst kvs) of
                   None \<Rightarrow> Inr v
                 | Some k \<Rightarrow> (case validate_locale k of Inl e \<Rightarrow> Inl e | Inr _ \<Rightarrow> Inr v)))
    \<and> ((\<forall>s. v \<noteq> PyStr s) \<and> (\<forall>kvs. v \<noteq> PyDict kvs) \<longrightarrow>
          run_validation super_run_validation v = Inr v)"
proof (intro conjI allI impI)
  fix s assume v: "v = PyStr s"
  show "run_validation super_run_validation v =
          (if re_match RE_LOCALE s then Inr v
           else Inl (ValidationError (validate_locale_message s)))"
    using assms by (simp add: v run_validation_def validate_locale_def)
  then show "run_validation super_run_validation v = Inr v \<longleftrightarrow> re_match RE_LOCALE s"
    by simp
  show "\<exists>pre post. validate_locale_message s = pre @ [CHR 0x27] @ s @ [CHR 0x27] @ post"
    by (rule validate_locale_message_names_value)
  show "re_match RE_LOCALE s \<longleftrightarrow> locale_code s \<or> (\<exists>t. s = t @ [CHR 0x0A] \<and> locale_code t)"
    by (rule re_match_RE_LOCALE)
next
  fix kvs assume v: "v = PyDict kvs"
  have rv: "run_validation super_run_validation v =
              (case validate_keys kvs of Inl e \<Rightarrow> Inl e | Inr _ \<Rightarrow> Inr v)"
    using assms unfolding v by (simp add: run_validation_def)
  have "run_validation super_run_validation v = Inr v \<longleftrightarrow> validate_keys kvs = Inr ()"
    unfolding rv by (cases "validate_keys kvs") simp_all
  then show "run_validation super_run_validation v = Inr v \<longleftrightarrow>
               (\<forall>k \<in> set (map fst kvs). \<exists>s. k = PyStr s \<and> re_match RE_LOCALE s)"
    by (simp only: validate_keys_ok validate_locale_ok)
  show "run_validation super_run_validation v =
          (case find (\<lambda>k. validate_locale k \<noteq> Inr ()) (map fst kvs) of
             None \<Rightarrow> Inr v
           | Some k \<Rightarrow> (case validate_locale k of Inl e \<Rightarrow> Inl e | Inr _ \<Rightarrow> Inr v))"
    unfolding rv validate_keys_first_error by (simp split: option.splits)
next
  assume "(\<forall>s. v \<noteq> PyStr s) \<and> (\<forall>kvs. v \<noteq> PyDict kvs)"
  then show "run_validation super_run_validation v = Inr v"
    using assms by (cases v) (simp_all add: run_validation_def)
qed

theorem run_validation_locale_witness:
  "run_validation Inr (PyStr ''en_US'') = Inr (PyStr ''en_US'')
   \<and> run_validation Inr (PyStr ''english'')
       = Inl (ValidationError (validate_locale_message ''english''))
   \<and> run_validation Inr (PyDict [(PyStr ''en'', PyNone), (PyStr ''fr_FR'', PyInt 3)])
       = Inr (PyDict [(PyStr ''en'', PyNone), (PyStr ''fr_FR'', PyInt 3)])
   \<and> run_validation Inr (PyDict [(PyStr ''en'', PyNone), (PyStr ''FR'', PyInt 3)])
       = Inl (ValidationError (validate_locale_message ''FR''))
   \<and> run_validation Inr (PyList []) = Inr (PyList [])"
  using run_validation_locale [of Inr "PyStr ''en_US''"]
    run_validation_locale [of Inr "PyStr ''english''"]
    run_validation_locale [of Inr "PyDict [(PyStr ''en'', PyNone), (PyStr ''fr_FR'', PyInt 3)]"]
    run_validation_locale [of Inr "PyDict [(PyStr ''en'', PyNone), (PyStr ''FR'', PyInt 3)]"]
    run_validation_locale [of Inr "PyList []"]
  by (simp add: RE_LOCALE_def re_match_def re_match_seq_Range2 validate_locale_def)

section \<open>The name for the destination\<close>

text \<open>
  C9. For a path with a file name, the name computed for the destination is \<open>index\<close>
  when the last component of the logical stem is \<open>index\<close> or \<open>README\<close>, and that
  component otherwise; every file the constructor returns carries this name.
\<close>

theorem name_of_resolved_file:
  assumes "path_name (Path (src_path file_from)) \<noteq> []"
  shows "non_i18n_src_path langs (src_path file_from)
           = Inr (logical_stem langs (src_path file_from))
    \<and> get_stem langs (src_path file_from) =
        Inr (if path_name (logical_stem langs (src_path file_from)) = ''index''
                \<or> path_name (logical_stem langs (src_path file_from)) = ''README''
             then ''index''
             else path_name (logical_stem langs (src_path file_from)))
    \<and> (\<forall>r. I18nFile_init exists is_page file_from language langs default_language docs site udu
               = Inr r \<longrightarrow>
            name r = (if path_name (logical_stem langs (src_path file_from)) = ''index''
                         \<or> path_name (logical_stem langs (src_path file_from)) = ''README''
                      then ''index''
                      else path_name (logical_stem langs (src_path file_from))))"
proof (intro conjI allI impI)
  show "non_i18n_src_path langs (src_path file_from)
          = Inr (logical_stem langs (src_path file_from))"
    by (rule get_stem_ok(1)[OF assms])
  show g: "get_stem langs (src_path file_from) =
        Inr (if path_name (logical_stem langs (src_path file_from)) = ''index''
                \<or> path_name (logical_stem langs (src_path file_from)) = ''README''
             then ''index''
             else path_name (logical_stem langs (src_path file_from)))"
    using get_stem_ok(2)[OF assms, of langs] by simp
  fix r
  assume "I18nFile_init exists is_page file_from language langs default_language docs site udu
            = Inr r"
  then have "get_stem langs (src_path file_from) = Inr (name r)" by (rule init_Inr_name)
  then show "name r = (if path_name (logical_stem langs (src_path file_from)) = ''index''
                         \<or> path_name (logical_stem langs (src_path file_from)) = ''README''
                      then ''index''
                      else path_name (logical_stem langs (src_path file_from)))"
    unfolding g by simp
qed

theorem name_of_resolved_file_witness:
  "get_stem [''en'', ''fr'', ''de''] ''guide/README.fr.md'' = Inr ''index''
   \<and> get_stem [''en'', ''fr'', ''de''] ''guide/intro.md'' = Inr ''intro''
   \<and> field name (example_init ''index.md'' ''index.html'' (Some True)) = Some ''index''"
proof -
  have h1: "path_name (Path (src_path (example_file ''guide/README.fr.md'' ''guide/index.html''))) \<noteq> []"
    by code_simp
  have h2: "path_name (Path (src_path (example_file ''guide/intro.md'' ''guide/intro/index.html''))) \<noteq> []"
    by code_simp
  have h3: "path_name (Path (src_path (example_file ''index.md'' ''index.html''))) \<noteq> []"
    by code_simp
  have s1: "path_name (logical_stem [''en'', ''fr'', ''de''] ''guide/README.fr.md'') = ''README''"
    by code_simp
  have s2: "path_name (logical_stem [''en'', ''fr'', ''de''] ''guide/intro.md'') = ''intro''"
    by code_simp
  have s3: "path_name (logical_stem [''en'', ''fr'', ''de''] ''index.md'') = ''index''"
    by code_simp
  have ok: "field page (example_init ''index.md'' ''index.html'' (Some True)) = Some None"
    by code_simp
  then obtain r where r: "example_init ''index.md'' ''index.html'' (Some True) = Inr r"
    by (cases "example_init ''index.md'' ''index.html'' (Some True)") (simp_all add: field_def)
  have "name r = ''index''"
    using name_of_resolved_file[OF h3, of "[''en'', ''fr'', ''de'']" example_docs example_is_page
        "''fr''" "''en''" "''docs''" "''site''" "Some True"] r s3
    unfolding example_init_def by (simp add: example_file_def)
  then show ?thesis
    using name_of_resolved_file[OF h1, of "[''en'', ''fr'', ''de'']"]
      name_of_resolved_file[OF h2, of "[''en'', ''fr'', ''de'']"] s1 s2 r
    by (simp add: field_def example_file_def)
qed

section \<open>What the fallback leaves untouched\<close>

lemma urlquote_append: "urlquote (a @ b) = urlquote a @ urlquote b"
  by (simp add: urlquote_def)

lemma spec_url_prefix:
  "\<exists>rest. spec_url d language b = urlquote (language @ ''/'') @ rest"
proof -
  obtain c where c: "spec_url d language b
      = urlquote (if c = ''.'' then language @ ''/'' else language @ ''/'' @ c)"
    unfolding spec_url_def Let_def by blast
  have "urlquote (language @ ''/'' @ c) = urlquote (language @ ''/'') @ urlquote c"
    using urlquote_append[of "language @ ''/''" c] by simp
  then show ?thesis unfolding c by (cases "c = ''.''") auto
qed

text \<open>
  C10. When the walker's path has a file name, the requested locale is not empty and
  the three probes find that none of the candidates exists, the file returned keeps the
  walker's four paths
  (the absolute destination has no locale directory put in), its locale suffix is
  \<open>None\<close> and its destination file name was never assigned; its URL is nevertheless
  computed by \<open>_get_url\<close> from that destination path, so it starts with the requested
  locale and a slash.
\<close>

theorem fallback_keeps_walker_paths:
  assumes "path_name (Path (src_path file_from)) \<noteq> []"
    and "language \<noteq> []"
    and "exists (path_str (candidate docs (logical_stem langs (src_path file_from))
                   (''.'' @ language) (suffix (src_path file_from)))) = Inr False"
    and "exists (path_str (candidate docs (logical_stem langs (src_path file_from))
                   (''.'' @ default_language) (suffix (src_path file_from)))) = Inr False"
    and "exists (path_str (candidate docs (logical_stem langs (src_path file_from))
                   [] (suffix (src_path file_from)))) = Inr False"
  shows "\<exists>r. I18nFile_init exists is_page file_from language langs default_language docs site udu
               = Inr r
           \<and> src_path r = src_path file_from \<and> abs_src_path r = abs_src_path file_from
           \<and> dest_path r = dest_path file_from \<and> abs_dest_path r = abs_dest_path file_from
           \<and> locale_suffix r = None \<and> dest_name r = None
           \<and> url r = get_url (dest_path file_from) language udu
           \<and> url r = spec_url (dest_path file_from) language (udu = Some True)
           \<and> (\<exists>rest. url r = urlquote (language @ ''/'') @ rest)"
proof -
  have "\<exists>rest. get_url (dest_path file_from) language udu = urlquote (language @ ''/'') @ rest"
    unfolding get_url_spec[OF assms(2)] by (rule spec_url_prefix)
  then show ?thesis
    unfolding init_fallback[OF assms(1,3,4,5)] using get_url_spec[OF assms(2)] by simp
qed

theorem fallback_keeps_walker_paths_witness:
  "field abs_dest_path (example_init ''img/photo.png'' ''img/photo.png'' (Some True))
     = Some ''site/img/photo.png''
   \<and> field dest_name (example_init ''img/photo.png'' ''img/photo.png'' (Some True)) = Some None
   \<and> field locale_suffix (example_init ''img/photo.png'' ''img/photo.png'' (Some True)) = Some None
   \<and> field url (example_init ''img/photo.png'' ''img/photo.png'' (Some True))
     = Some ''fr/img/photo.png''"
proof -
  have h: "path_name (Path (src_path (example_file ''img/photo.png'' ''img/photo.png''))) \<noteq> []"
    by code_simp
  have l: "''fr'' \<noteq> []" by simp
  have e1: "example_docs (path_str (candidate ''docs''
              (logical_stem [''en'', ''fr'', ''de'']
                 (src_path (example_file ''img/photo.png'' ''img/photo.png'')))
              (''.'' @ ''fr'') (suffix (src_path (example_file ''img/photo.png'' ''img/photo.png'')))))
            = Inr False"
    by code_simp
  have e2: "example_docs (path_str (candidate ''docs''
              (logical_stem [''en'', ''fr'', ''de'']
                 (src_path (example_file ''img/photo.png'' ''img/photo.png'')))
              (''.'' @ ''en'') (suffix (src_path (example_file ''img/photo.png'' ''img/photo.png'')))))
            = Inr False"
    by code_simp
  have e3: "example_docs (path_str (candidate ''docs''
              (logical_stem [''en'', ''fr'', ''de'']
                 (src_path (example_file ''img/photo.png'' ''img/photo.png'')))
              [] (suffix (src_path (example_file ''img/photo.png'' ''img/photo.png'')))))
            = Inr False"
    by code_simp
  have u: "spec_url ''img/photo.png'' ''fr'' True = ''fr/img/photo.png''"
    by code_simp
  from fallback_keeps_walker_paths[OF h l e1 e2 e3, of example_is_page "''site''" "Some True"]
  obtain r where "example_init ''img/photo.png'' ''img/photo.png'' (Some True) = Inr r"
    "abs_dest_path r = abs_dest_path (example_file ''img/photo.png'' ''img/photo.png'')"
    "locale_suffix r = None" "dest_name r = None"
    "url r = spec_url (dest_path (example_file ''img/photo.png'' ''img/photo.png'')) ''fr''
               (Some True = Some True)"
    unfolding example_init_def by auto
  then show ?thesis using u by (simp add: field_def example_file_def)
qed

end
